theory Spec2Isabelle
  imports Main
begin

section \<open>Python values, errors and strings\<close>

text \<open>
  The parsers of \<^verbatim>\<open>tdparse/parsers.py\<close> and the tokeniser wrappers of
  \<^verbatim>\<open>bella/tokenisers.py\<close> are embedded as HOL functions. A Python \<^verbatim>\<open>str\<close> is a
  \<open>string\<close>; one \<open>char\<close> stands for one code point, so the model covers texts whose code
  points are below 256 (ASCII and Latin-1). On these texts \<^verbatim>\<open>str.lower\<close> maps character by
  character; on other texts it can change the length of a string, so every result on the
  spans of \<^verbatim>\<open>dong\<close>, which searches the lower-cased text, is stated for the lower-cased
  text and proved without the length of a lower-cased string. An exception is a value of \<open>error\<close>, returned
  as \<open>Inl\<close>; the constructor names the Python exception class and carries its message (a
  \<open>KeyError\<close> carries the missing key).
\<close>

datatype pyval = PNone | PBool bool | PInt int | PStr string | PList "pyval list"

datatype error =
    ValueError string
  | TypeError string
  | KeyError string
  | IndexError string
  | UnboundLocalError string
  | ReError string
  | ReNotModelled string
  | Exception string

type_synonym span = "int \<times> int"

definition lower_char :: "char \<Rightarrow> char" where
  \<comment> \<open>\<^verbatim>\<open>str.lower\<close> on one code point below 256: A-Z and the Latin-1 capitals
      (0xC0-0xDE without the multiplication sign) move up by 32.\<close>
  "lower_char c =
     (let n = (of_char c :: nat)
      in if (65 \<le> n \<and> n \<le> 90) \<or> (192 \<le> n \<and> n \<le> 222 \<and> n \<noteq> 215)
         then char_of (n + 32) else c)"

definition lower :: "string \<Rightarrow> string" where
  "lower s = map lower_char s"

definition is_space :: "char \<Rightarrow> bool" where
  \<comment> \<open>\<^verbatim>\<open>str.isspace\<close> on one code point below 256.\<close>
  "is_space c = ((of_char c :: nat) \<in> {9, 10, 11, 12, 13, 28, 29, 30, 31, 32, 133, 160})"

definition strip :: "string \<Rightarrow> string" where
  \<comment> \<open>\<^verbatim>\<open>str.strip()\<close>: whitespace removed at both ends.\<close>
  "strip s = rev (dropWhile is_space (rev (dropWhile is_space s)))"

fun split_from :: "string \<Rightarrow> string \<Rightarrow> string list" where
  "split_from w [] = (if w = [] then [] else [w])"
| "split_from w (c # cs) =
     (if is_space c then (if w = [] then split_from [] cs else w # split_from [] cs)
      else split_from (w @ [c]) cs)"

definition split :: "string \<Rightarrow> string list" where
  \<comment> \<open>\<^verbatim>\<open>str.split()\<close> with no argument: the maximal runs of non-whitespace, in order.\<close>
  "split s = split_from [] s"

definition py_slice :: "string \<Rightarrow> int \<Rightarrow> int \<Rightarrow> string" where
  \<comment> \<open>\<^verbatim>\<open>s[a:b]\<close>: a negative bound counts from the end, both bounds are clipped to
      the string, and an empty range gives the empty string.\<close>
  "py_slice s a b =
     (let n = int (length s);
          a' = (if a < 0 then max (a + n) 0 else min a n);
          b' = (if b < 0 then max (b + n) 0 else min b n)
      in take (nat (b' - a')) (drop (nat a') s))"

definition digit_char :: "nat \<Rightarrow> char" where
  "digit_char d = char_of (48 + d)"

fun str_nat :: "nat \<Rightarrow> string" where
  "str_nat n = (if n < 10 then [digit_char n] else str_nat (n div 10) @ [digit_char (n mod 10)])"

declare str_nat.simps [simp del]

definition str_int :: "int \<Rightarrow> string" where
  \<comment> \<open>\<^verbatim>\<open>str(i)\<close> and \<^verbatim>\<open>'{}'.format(i)\<close> for an int.\<close>
  "str_int i = (if i < 0 then CHR ''-'' # str_nat (nat (- i)) else str_nat (nat i))"

definition digit_val :: "char \<Rightarrow> nat option" where
  "digit_val c = (let n = (of_char c :: nat) in if 48 \<le> n \<and> n \<le> 57 then Some (n - 48) else None)"

fun int_digits :: "nat \<Rightarrow> bool \<Rightarrow> string \<Rightarrow> nat option" where
  \<comment> \<open>Decimal digits with single underscores between digits; the flag says that the
      previous character was a digit.\<close>
  "int_digits acc prev [] = (if prev then Some acc else None)"
| "int_digits acc prev (c # cs) =
     (if c = CHR ''_'' then (if prev then int_digits acc False cs else None)
      else case digit_val c of
             None \<Rightarrow> None
           | Some d \<Rightarrow> int_digits (10 * acc + d) True cs)"

definition py_int :: "string \<Rightarrow> int option" where
  \<comment> \<open>\<^verbatim>\<open>int(s)\<close> for a string: surrounding whitespace, an optional sign, decimal
      digits. \<open>None\<close> is the ValueError of an invalid literal (whose message quotes the
      literal).\<close>
  "py_int s =
     (case strip s of
        [] \<Rightarrow> None
      | c # cs \<Rightarrow>
          if c = CHR ''-'' then map_option (\<lambda>n. - int n) (int_digits 0 False cs)
          else if c = CHR ''+'' then map_option int (int_digits 0 False cs)
          else map_option int (int_digits 0 False (c # cs)))"

definition hex_digit :: "nat \<Rightarrow> char" where
  "hex_digit n = ''0123456789abcdef'' ! (n mod 16)"

definition repr_char :: "char \<Rightarrow> char \<Rightarrow> string" where
  \<comment> \<open>One code point below 256 inside \<^verbatim>\<open>repr\<close> of a string: the quote and the backslash
      are escaped, tab, newline and carriage return have their letter, and the other
      code points that are not printable (the control codes, 0xA0 and 0xAD) are written
      with two hexadecimal digits.\<close>
  "repr_char quote c =
     (let n = (of_char c :: nat)
      in if c = quote \<or> c = CHR 0x5C then [CHR 0x5C, c]
         else if n = 9 then [CHR 0x5C, CHR ''t'']
         else if n = 10 then [CHR 0x5C, CHR ''n'']
         else if n = 13 then [CHR 0x5C, CHR ''r'']
         else if n < 32 \<or> n = 127 \<or> (128 \<le> n \<and> n \<le> 160) \<or> n = 173
         then [CHR 0x5C, CHR ''x'', hex_digit (n div 16), hex_digit n]
         else [c])"

definition py_repr :: "string \<Rightarrow> string" where
  \<comment> \<open>\<^verbatim>\<open>repr\<close> of a string: in single quotes, or in double quotes when the string has a
      single quote and no double quote.\<close>
  "py_repr s =
     (let quote = (if CHR 0x27 \<in> set s \<and> CHR 0x22 \<notin> set s then CHR 0x22 else CHR 0x27)
      in [quote] @ concat (map (repr_char quote) s) @ [quote])"

definition invalid_literal :: "string \<Rightarrow> string" where
  \<comment> \<open>The message of the ValueError of \<^verbatim>\<open>int(s)\<close>: the \<^verbatim>\<open>repr\<close> of the argument, cut
      after 200 characters.\<close>
  "invalid_literal s = ''invalid literal for int() with base 10: '' @ take 200 (py_repr s)"

section \<open>Regular expression search: \<^verbatim>\<open>re.finditer\<close>\<close>

text \<open>
  \<^verbatim>\<open>re.finditer(pattern, text)\<close> belongs to Python's library. The parsers take it as the
  parameter \<open>fi\<close>: a function from the pattern and the text to the spans of the matches
  found, or to the error raised for the pattern. \<open>re_finditer\<close> below is the library's
  behaviour on the fragment of the pattern syntax that the patterns of this program reach
  when the target has no special character: ordinary characters, the dot, and the class
  written \<^verbatim>\<open>[^\w]\<close>. A pattern that starts with a repetition sign is the library's error
  "nothing to repeat"; any other use of a special character is outside the fragment and
  gives \<open>ReNotModelled\<close>.
\<close>

type_synonym finditer = "string \<Rightarrow> string \<Rightarrow> error + span list"

datatype atom = Lit char | AnyChar | NonWord

definition is_word :: "char \<Rightarrow> bool" where
  \<comment> \<open>\<^verbatim>\<open>\w\<close> on one code point below 256: alphanumeric or the underscore.\<close>
  "is_word c =
     (let n = (of_char c :: nat)
      in (48 \<le> n \<and> n \<le> 57) \<or> (65 \<le> n \<and> n \<le> 90) \<or> n = 95 \<or> (97 \<le> n \<and> n \<le> 122)
         \<or> n \<in> {170, 178, 179, 181, 185, 186, 188, 189, 190}
         \<or> (192 \<le> n \<and> n \<le> 214) \<or> (216 \<le> n \<and> n \<le> 246) \<or> 248 \<le> n)"

fun atom_matches :: "atom \<Rightarrow> char \<Rightarrow> bool" where
  "atom_matches (Lit c) x = (x = c)"
| "atom_matches AnyChar x = (x \<noteq> CHR 0x0A)"
| "atom_matches NonWord x = (\<not> is_word x)"

definition re_special :: "char \<Rightarrow> bool" where
  "re_special c = (c \<in> set (''.^$*+?{}[]|()'' @ [CHR 0x5C]))"

definition nonword_class :: string where
  \<comment> \<open>The five characters of \<^verbatim>\<open>'[^\w]'\<close>.\<close>
  "nonword_class = [CHR ''['', CHR ''^'', CHR 0x5C, CHR ''w'', CHR '']'']"

function re_parse :: "string \<Rightarrow> string \<Rightarrow> error + atom list" where
  "re_parse whole p =
     (if p = [] then Inr []
      else if take 5 p = nonword_class then map_sum id (Cons NonWord) (re_parse whole (drop 5 p))
      else if hd p = CHR ''.'' then map_sum id (Cons AnyChar) (re_parse whole (tl p))
      else if re_special (hd p) then Inl (ReNotModelled whole)
      else map_sum id (Cons (Lit (hd p))) (re_parse whole (tl p)))"
  by pat_completeness auto
termination
  by (relation "measure (\<lambda>(whole, p). length p)") auto

declare re_parse.simps [simp del]

definition re_compile :: "string \<Rightarrow> error + atom list" where
  "re_compile p =
     (if p \<noteq> [] \<and> hd p \<in> set ''*+?'' then Inl (ReError ''nothing to repeat at position 0'')
      else re_parse p p)"

fun match_here :: "atom list \<Rightarrow> string \<Rightarrow> bool" where
  "match_here [] txt = True"
| "match_here (a # ats) [] = False"
| "match_here (a # ats) (x # xs) = (atom_matches a x \<and> match_here ats xs)"

lemma match_here_length: "match_here ats tx \<Longrightarrow> length ats \<le> length tx"
  by (induction ats tx rule: match_here.induct) auto

function scan :: "atom list \<Rightarrow> nat \<Rightarrow> string \<Rightarrow> (nat \<times> nat) list" where
  \<comment> \<open>The matches from left to right, none overlapping an earlier one: after a match the
      search goes on at its end (one further for an empty match).\<close>
  "scan ats pos txt =
     (if match_here ats txt then
        (pos, pos + length ats) #
          (if ats = [] then (if txt = [] then [] else scan ats (pos + 1) (tl txt))
           else scan ats (pos + length ats) (drop (length ats) txt))
      else if txt = [] then [] else scan ats (pos + 1) (tl txt))"
  by pat_completeness auto
termination
proof (relation "measure (\<lambda>(ats, pos, tx). length tx)")
  fix ats :: "atom list" and pos :: nat and tx :: string
  assume "match_here ats tx" and "ats \<noteq> []"
  then have "0 < length ats" and "length ats \<le> length tx"
    by (auto dest: match_here_length)
  then show "((ats, pos + length ats, drop (length ats) tx), (ats, pos, tx))
               \<in> measure (\<lambda>(ats, pos, tx). length tx)"
    by (cases ats) simp_all
qed auto

declare scan.simps [simp del]

definition re_finditer :: finditer where
  "re_finditer pattern txt =
     (case re_compile pattern of
        Inl e \<Rightarrow> Inl e
      | Inr ats \<Rightarrow> Inr (map (\<lambda>(s, e). (int s, int e)) (scan ats 0 txt)))"

section \<open>Targets and target collections\<close>

text \<open>
  Modelled from the spec: the classes \<^verbatim>\<open>Target\<close> and \<^verbatim>\<open>TargetCollection\<close> of
  \<^verbatim>\<open>tdparse.data_types\<close>, which the parsers import and whose source is not among the
  files. A Target is the record of the keyword arguments it is built from (text, target,
  spans, sentiment, target id and the optional sentence id). A TargetCollection is the
  ordered sequence of the Targets added to it: \<open>add\<close> appends, the length is the number of
  added Targets, and a collection built from a list holds that list. The fields carry the
  prefix \<open>t_\<close>, since \<open>text\<close> is a keyword here.
\<close>

record Target =
  t_spans :: "(pyval \<times> pyval) list"
  t_target_id :: string
  t_target :: string
  t_text :: pyval
  t_sentiment :: pyval
  t_sentence_id :: "string option"

type_synonym TargetCollection = "Target list"

definition add :: "TargetCollection \<Rightarrow> Target \<Rightarrow> TargetCollection" where
  "add coll t = coll @ [t]"

definition int_span :: "span \<Rightarrow> pyval \<times> pyval" where
  \<comment> \<open>The tuple \<^verbatim>\<open>match.span()\<close> of two ints.\<close>
  "int_span sp = (PInt (fst sp), PInt (snd sp))"

section \<open>The line-record parser: \<^verbatim>\<open>dong\<close>\<close>

record sent_dict =
  sd_text :: "string option"
  sd_target :: "string option"

definition empty_sent_dict :: sent_dict where
  "empty_sent_dict = \<lparr>sd_text = None, sd_target = None\<rparr>"

definition sentiment_range :: "int list" where
  "sentiment_range = [-1, 0, 1]"

definition dong_offsets :: "finditer \<Rightarrow> string \<Rightarrow> string \<Rightarrow> error + span list" where
  \<comment> \<open>Lines 50 to 56 of \<^verbatim>\<open>dong\<close>: the spans of the target in the text.\<close>
  "dong_offsets fi text0 target0 =
     (let text = lower text0;
          target = lower target0
      in case fi target text of
           Inl e \<Rightarrow> Inl e
         | Inr offsets \<Rightarrow>
             if length (split target) > 1 then
               (let joined_target = concat (split target)
                in case fi joined_target text of
                     Inl e \<Rightarrow> Inl e
                   | Inr joined_offsets \<Rightarrow> Inr (offsets @ joined_offsets))
             else Inr offsets)"

fun dong_loop ::
  "finditer \<Rightarrow> nat \<Rightarrow> string list \<Rightarrow> sent_dict \<Rightarrow> TargetCollection \<Rightarrow> error + TargetCollection"
where
  "dong_loop fi index [] sent sentiment_data = Inr sentiment_data"
| "dong_loop fi index (line0 # rest) sent sentiment_data =
     (let divisible = index + 1;
          line = strip line0
      in if divisible mod 3 = 1 then
           dong_loop fi (index + 1) rest (sent\<lparr>sd_text := Some line\<rparr>) sentiment_data
         else if divisible mod 3 = 2 then
           dong_loop fi (index + 1) rest (sent\<lparr>sd_target := Some line\<rparr>) sentiment_data
         else if divisible mod 3 = 0 then
           (case py_int line of
              None \<Rightarrow> Inl (ValueError (invalid_literal line))
            | Some sentiment \<Rightarrow>
                if sentiment \<notin> set sentiment_range then
                  Inl (ValueError (''The sentiment has to be one of the following values ''
                         @ ''[-1, 0, 1]'' @ '' not '' @ str_int sentiment))
                else
                  (case sd_text sent of
                     None \<Rightarrow> Inl (KeyError ''text'')
                   | Some text \<Rightarrow>
                       (case sd_target sent of
                          None \<Rightarrow> Inl (KeyError ''target'')
                        | Some target \<Rightarrow>
                            (case dong_offsets fi text target of
                               Inl e \<Rightarrow> Inl e
                             | Inr offsets \<Rightarrow>
                                 dong_loop fi (index + 1) rest empty_sent_dict
                                   (add sentiment_data
                                      \<lparr>t_spans = map int_span offsets,
                                       t_target_id = str_nat (length sentiment_data),
                                       t_target = target,
                                       t_text = PStr text,
                                       t_sentiment = PInt sentiment,
                                       t_sentence_id = None\<rparr>)))))
         else Inl (Exception ''Problem''))"

definition dong :: "finditer \<Rightarrow> string list \<Rightarrow> error + TargetCollection" where
  \<comment> \<open>The file is the list of its lines, in order; that the path names a file is
      checked before the file is read and is not part of the model.\<close>
  "dong fi file_lines = dong_loop fi 0 file_lines empty_sent_dict []"

section \<open>The XML parser: \<^verbatim>\<open>semeval\<close>\<close>

datatype element =
  Element (el_tag: string) (el_attrib: "(string \<times> string) list") (el_text: "string option")
    (el_children: "element list")

definition sentiment_mapper :: "(string \<times> int) list" where
  "sentiment_mapper = [(''conflict'', -2), (''negative'', -1), (''neutral'', 0), (''positive'', 1)]"

definition lookup :: "('k \<times> 'v) list \<Rightarrow> ('k \<Rightarrow> string) \<Rightarrow> 'k \<Rightarrow> error + 'v" where
  \<comment> \<open>\<^verbatim>\<open>d[k]\<close> on a dict: the value, or KeyError.\<close>
  "lookup d show_key k = (case map_of d k of None \<Rightarrow> Inl (KeyError (show_key k)) | Some v \<Rightarrow> Inr v)"

record aspect_term_data =
  a_target_id :: string
  a_target :: string
  a_sentiment :: int
  a_spans :: "(pyval \<times> pyval) list"

fun extract_aspect_terms_loop ::
  "nat \<Rightarrow> element list \<Rightarrow> string \<Rightarrow> aspect_term_data list \<Rightarrow> error + aspect_term_data list"
where
  "extract_aspect_terms_loop index [] sentence_id aspect_terms_data = Inr aspect_terms_data"
| "extract_aspect_terms_loop index (aspect_term0 # rest) sentence_id aspect_terms_data =
     (let aspect_term = el_attrib aspect_term0
      in case lookup aspect_term id ''polarity'' of
           Inl e \<Rightarrow> Inl e
         | Inr polarity \<Rightarrow>
        (case lookup sentiment_mapper id polarity of
           Inl e \<Rightarrow> Inl e
         | Inr sentiment \<Rightarrow>
        (let aspect_id = sentence_id @ str_nat index
         in case lookup aspect_term id ''term'' of
           Inl e \<Rightarrow> Inl e
         | Inr term \<Rightarrow>
        (case lookup aspect_term id ''from'' of
           Inl e \<Rightarrow> Inl e
         | Inr from \<Rightarrow>
        (case lookup aspect_term id ''to'' of
           Inl e \<Rightarrow> Inl e
         | Inr to \<Rightarrow>
             extract_aspect_terms_loop (index + 1) rest sentence_id
               (aspect_terms_data @
                  [\<lparr>a_target_id = aspect_id, a_target = term, a_sentiment = sentiment,
                    a_spans = [(PStr from, PStr to)]\<rparr>]))))))"

definition extract_aspect_terms :: "element \<Rightarrow> string \<Rightarrow> error + aspect_term_data list" where
  "extract_aspect_terms aspect_terms sentence_id =
     extract_aspect_terms_loop 0 (el_children aspect_terms) sentence_id []"

definition add_text :: "aspect_term_data list \<Rightarrow> pyval \<Rightarrow> (aspect_term_data \<times> pyval) list" where
  "add_text aspect_data text = map (\<lambda>data. (data, text)) aspect_data"

definition aspect_target :: "aspect_term_data \<times> pyval \<Rightarrow> Target" where
  \<comment> \<open>\<^verbatim>\<open>Target(**aspect)\<close>: the five keys of the dict; no sentence id is passed.\<close>
  "aspect_target aspect =
     \<lparr>t_spans = a_spans (fst aspect), t_target_id = a_target_id (fst aspect),
      t_target = a_target (fst aspect), t_text = snd aspect,
      t_sentiment = PInt (a_sentiment (fst aspect)), t_sentence_id = None\<rparr>"

fun sentence_loop ::
  "nat \<Rightarrow> element list \<Rightarrow> string \<Rightarrow> aspect_term_data list option \<Rightarrow> nat option
     \<Rightarrow> error + (aspect_term_data list option \<times> nat option)"
where
  "sentence_loop index [] sentence_id aspect_term_data text_index =
     Inr (aspect_term_data, text_index)"
| "sentence_loop index (data # rest) sentence_id aspect_term_data text_index =
     (if el_tag data = ''text'' then
        sentence_loop (index + 1) rest sentence_id aspect_term_data (Some index)
      else if el_tag data = ''aspectTerms'' then
        (case extract_aspect_terms data sentence_id of
           Inl e \<Rightarrow> Inl e
         | Inr ds \<Rightarrow> sentence_loop (index + 1) rest sentence_id (Some ds) text_index)
      else sentence_loop (index + 1) rest sentence_id aspect_term_data text_index)"

fun semeval_loop :: "string \<Rightarrow> element list \<Rightarrow> TargetCollection \<Rightarrow> error + TargetCollection" where
  "semeval_loop file_path [] all_aspect_term_data = Inr all_aspect_term_data"
| "semeval_loop file_path (sentence # rest) all_aspect_term_data =
     (case lookup (el_attrib sentence) id ''id'' of
        Inl e \<Rightarrow> Inl e
      | Inr sentence_id \<Rightarrow>
     (case sentence_loop 0 (el_children sentence) sentence_id None None of
        Inl e \<Rightarrow> Inl e
      | Inr (None, text_index) \<Rightarrow> semeval_loop file_path rest all_aspect_term_data
      | Inr (Some aspect_term_data, None) \<Rightarrow>
          Inl (ValueError (''A semeval sentence should always have text semeval file ''
                 @ file_path @ '' sentence id '' @ sentence_id))
      | Inr (Some aspect_term_data, Some text_index) \<Rightarrow>
          (if text_index < length (el_children sentence) then
             (let sentence_text =
                    (case el_text (el_children sentence ! text_index) of
                       None \<Rightarrow> PNone | Some s \<Rightarrow> PStr s);
                  aspects = add_text aspect_term_data sentence_text
              in semeval_loop file_path rest
                   (foldl add all_aspect_term_data (map aspect_target aspects)))
           else Inl (IndexError ''child index out of range''))))"

definition semeval :: "string \<Rightarrow> element \<Rightarrow> error + TargetCollection" where
  \<comment> \<open>The root is the element tree that \<^verbatim>\<open>ET.parse(file_path).getroot()\<close> gives.\<close>
  "semeval file_path sentences =
     (if el_tag sentences \<noteq> ''sentences'' then
        Inl (ValueError (''The root of all semeval xml files should be sentences and not ''
               @ el_tag sentences))
      else semeval_loop file_path (el_children sentences) [])"

section \<open>Hint-shift span resolution: \<^verbatim>\<open>get_offsets\<close>\<close>

record entity =
  e_entity :: string
  e_id :: int
  e_offset :: int

fun get_offsets_loop :: "int \<Rightarrow> string \<Rightarrow> string \<Rightarrow> int list \<Rightarrow> span list option" where
  "get_offsets_loop from_offset tweet_text target [] = None"
| "get_offsets_loop from_offset tweet_text target (offset_shift # offset_shifts) =
     (let from_offset_shift = from_offset + offset_shift;
          to_offset = from_offset_shift + int (length target);
          offsets = [(from_offset_shift, to_offset)];
          offset_text = lower (py_slice tweet_text from_offset_shift to_offset)
      in if offset_text = lower target then Some offsets
         else get_offsets_loop from_offset tweet_text target offset_shifts)"

definition get_offsets :: "string \<Rightarrow> entity \<Rightarrow> string \<Rightarrow> string \<Rightarrow> error + span list" where
  \<comment> \<open>The loop returns at the first matching shift; falling out of it raises.\<close>
  "get_offsets tweet_id ent tweet_text target =
     (let offset_shifts = [0, -1, 1];
          from_offset = e_offset ent
      in case get_offsets_loop from_offset tweet_text target offset_shifts of
           Some offsets \<Rightarrow> Inr offsets
         | None \<Rightarrow>
             Inl (ValueError (''Offset '' @ str_int from_offset @ '' does not match target text ''
                    @ target @ ''. Full text '' @ tweet_text @ [CHR 0x0A] @ ''id '' @ tweet_id)))"

section \<open>Fuzzy span resolution: \<^verbatim>\<open>fuzzy_target_match\<close>\<close>

function py_replace :: "string \<Rightarrow> string \<Rightarrow> string \<Rightarrow> string" where
  \<comment> \<open>\<^verbatim>\<open>s.replace(old, new)\<close> for a non-empty \<open>old\<close>: every occurrence from the left, none
      overlapping an earlier one. (The program calls it with \<^verbatim>\<open>' '\<close> and \<^verbatim>\<open>" '"\<close> only.)\<close>
  "py_replace old new s =
     (if s = [] \<or> old = [] then s
      else if take (length old) s = old then new @ py_replace old new (drop (length old) s)
      else hd s # py_replace old new (tl s))"
  by pat_completeness auto
termination
  by (relation "measure (\<lambda>(old, new, s). length s)") auto

declare py_replace.simps [simp del]

definition target_searches :: "string \<Rightarrow> string list" where
  "target_searches low_target =
     [low_target, nonword_class @ low_target,
      nonword_class @ low_target @ nonword_class,
      low_target @ nonword_class,
      py_replace '' '' [] low_target,
      py_replace [CHR '' '', CHR 0x27] [] low_target]"

fun fuzzy_loop :: "finditer \<Rightarrow> string \<Rightarrow> string list \<Rightarrow> error + span list option" where
  \<comment> \<open>The loop over the patterns: \<open>Some\<close> is its \<^verbatim>\<open>return target_matches\<close>,
      \<open>None\<close> is falling out of the loop.\<close>
  "fuzzy_loop fi tweet_text [] = Inr None"
| "fuzzy_loop fi tweet_text (target_search # rest) =
     (case fi target_search (lower tweet_text) of
        Inl e \<Rightarrow> Inl e
      | Inr target_matches \<Rightarrow>
          if length target_matches = 1 then Inr (Some target_matches)
          else fuzzy_loop fi tweet_text rest)"

definition fuzzy_target_match ::
  "finditer \<Rightarrow> string \<Rightarrow> string \<Rightarrow> string \<Rightarrow> error + span list option"
where
  \<comment> \<open>\<open>Inr None\<close> is \<^verbatim>\<open>return None\<close>. A match object is kept as its span.\<close>
  "fuzzy_target_match fi tweet_id tweet_text target =
     (let low_target = lower target
      in case fuzzy_loop fi tweet_text (target_searches low_target) of
           Inl e \<Rightarrow> Inl e
         | Inr (Some target_matches) \<Rightarrow> Inr (Some target_matches)
         | Inr None \<Rightarrow>
             if tweet_id \<in> set [''81211671026352128'', ''78689580104290305'',
                                ''81209490499960832''] then Inr None
             else if tweet_id = ''75270720671973376'' \<and> target = ''kippers'' then Inr None
             else if tweet_id = ''65855178264686592'' \<and> target = ''tax'' then Inr None
             else Inl (ValueError (''Cannot find the exact additional entity '' @ target
                         @ '' within the tweet '' @ tweet_text)))"

section \<open>The election parser\<close>

definition rstrip_chars :: "string \<Rightarrow> string \<Rightarrow> string" where
  \<comment> \<open>\<^verbatim>\<open>s.rstrip(chars)\<close>: trailing characters that are in the set \<open>chars\<close> are removed.\<close>
  "rstrip_chars chars s = rev (dropWhile (\<lambda>c. c \<in> set chars) (rev s))"

definition lstrip_chars :: "string \<Rightarrow> string \<Rightarrow> string" where
  \<comment> \<open>\<^verbatim>\<open>s.lstrip(chars)\<close>: leading characters that are in the set \<open>chars\<close> are removed.\<close>
  "lstrip_chars chars s = dropWhile (\<lambda>c. c \<in> set chars) s"

definition file_tweet_id :: "string \<Rightarrow> string" where
  \<comment> \<open>Line 172 of \<^verbatim>\<open>get_file_data\<close>.\<close>
  "file_tweet_id file_name = lstrip_chars ''5'' (rstrip_chars ''.json'' file_name)"

fun get_file_data :: "(string \<times> 'j) list \<Rightarrow> (string \<rightharpoonup> 'j) \<Rightarrow> (string \<rightharpoonup> 'j)" where
  \<comment> \<open>The folder is the list of its file names, each with the JSON value read from the
      file; \<open>data\<close> starts empty.\<close>
  "get_file_data [] data = data"
| "get_file_data ((file_name, json) # rest) data =
     (let tweet_id = file_tweet_id file_name
      in get_file_data rest (data(tweet_id \<mapsto> json)))"

record tweet_data =
  content :: string
  entities :: "entity list"

datatype additional = AdditionalDict "(string \<times> string) list" | AdditionalOther

record anno_data =
  items :: "(string \<times> string) list"
  additional_items :: additional

fun entities_loop ::
  "string \<Rightarrow> bool \<Rightarrow> string \<Rightarrow> anno_data \<Rightarrow> entity list \<Rightarrow> Target list \<Rightarrow> int list
     \<Rightarrow> error + (Target list \<times> int list)"
where
  \<comment> \<open>Lines 225 to 238: the automatically detected entities.\<close>
  "entities_loop tweet_id include_dnr tweet_text anno [] target_instances target_ids =
     Inr (target_instances, target_ids)"
| "entities_loop tweet_id include_dnr tweet_text anno (ent # rest) target_instances target_ids =
     (let target = e_entity ent;
          target_ids' = target_ids @ [e_id ent];
          entity_id = str_int (e_id ent)
      in case get_offsets tweet_id ent tweet_text target of
           Inl e \<Rightarrow> Inl e
         | Inr spans \<Rightarrow>
        (case lookup (items anno) id entity_id of
           Inl e \<Rightarrow> Inl e
         | Inr sentiment \<Rightarrow>
             if sentiment = ''doesnotapply'' \<and> \<not> include_dnr then
               entities_loop tweet_id include_dnr tweet_text anno rest target_instances target_ids'
             else
               entities_loop tweet_id include_dnr tweet_text anno rest
                 (target_instances @
                    [\<lparr>t_spans = map int_span spans,
                      t_target_id = tweet_id @ ''#'' @ entity_id,
                      t_target = e_entity ent,
                      t_text = PStr tweet_text,
                      t_sentiment = PStr sentiment,
                      t_sentence_id = Some tweet_id\<rparr>])
                 target_ids'))"

fun py_max :: "int list \<Rightarrow> error + int" where
  "py_max [] = Inl (ValueError ''max() arg is an empty sequence'')"
| "py_max (x # xs) = Inr (fold max xs x)"

fun additional_loop ::
  "finditer \<Rightarrow> string \<Rightarrow> string \<Rightarrow> bool \<Rightarrow> (string \<times> string) list \<Rightarrow> Target list \<Rightarrow> int list
     \<Rightarrow> error + Target list"
where
  \<comment> \<open>Lines 243 to 255: the entities added by the annotator. \<open>data_dict_bound\<close> says that
      the entities loop ran at least once, so that the name \<^verbatim>\<open>data_dict\<close> is bound; every
      key of the dict is overwritten before the Target is built.\<close>
  "additional_loop fi tweet_id tweet_text data_dict_bound [] target_instances target_ids =
     Inr target_instances"
| "additional_loop fi tweet_id tweet_text data_dict_bound ((target, sentiment) # rest)
       target_instances target_ids =
     (case fuzzy_target_match fi tweet_id tweet_text target of
        Inl e \<Rightarrow> Inl e
      | Inr None \<Rightarrow>
          additional_loop fi tweet_id tweet_text data_dict_bound rest target_instances target_ids
      | Inr (Some target_matches) \<Rightarrow>
     (case py_max target_ids of
        Inl e \<Rightarrow> Inl e
      | Inr m \<Rightarrow>
          (let target_id = m + 1;
               target_ids' = target_ids @ [target_id]
           in if \<not> data_dict_bound then Inl (UnboundLocalError ''data_dict'')
              else case target_matches of
                     [] \<Rightarrow> Inl (IndexError ''list index out of range'')
                   | first_match # _ \<Rightarrow>
                       additional_loop fi tweet_id tweet_text data_dict_bound rest
                         (target_instances @
                            [\<lparr>t_spans = [int_span first_match],
                              t_target_id = tweet_id @ ''#'' @ str_int target_id,
                              t_target = target,
                              t_text = PStr tweet_text,
                              t_sentiment = PStr sentiment,
                              t_sentence_id = Some tweet_id\<rparr>])
                         target_ids')))"

definition parse_tweet ::
  "finditer \<Rightarrow> bool \<Rightarrow> bool \<Rightarrow> tweet_data \<Rightarrow> anno_data \<Rightarrow> string \<Rightarrow> error + Target list"
where
  "parse_tweet fi include_dnr include_additional tweet anno tweet_id =
     (let tweet_text = content tweet
      in case entities_loop tweet_id include_dnr tweet_text anno (entities tweet) [] [] of
           Inl e \<Rightarrow> Inl e
         | Inr (target_instances, target_ids) \<Rightarrow>
             if include_additional then
               (case additional_items anno of
                  AdditionalDict additional_data \<Rightarrow>
                    additional_loop fi tweet_id tweet_text (entities tweet \<noteq> [])
                      additional_data target_instances target_ids
                | AdditionalOther \<Rightarrow> Inr target_instances)
             else Inr target_instances)"

fun get_data ::
  "finditer \<Rightarrow> bool \<Rightarrow> bool \<Rightarrow> string list \<Rightarrow> (string \<rightharpoonup> tweet_data) \<Rightarrow> (string \<rightharpoonup> anno_data)
     \<Rightarrow> Target list \<Rightarrow> error + TargetCollection"
where
  "get_data fi include_dnr include_additional [] tweets_data annos_data targets = Inr targets"
| "get_data fi include_dnr include_additional (id_line # rest) tweets_data annos_data targets =
     (let tweet_id = strip id_line
      in case tweets_data tweet_id of
           None \<Rightarrow> Inl (KeyError tweet_id)
         | Some tweet \<Rightarrow>
        (case annos_data tweet_id of
           None \<Rightarrow> Inl (KeyError tweet_id)
         | Some anno \<Rightarrow>
        (case parse_tweet fi include_dnr include_additional tweet anno tweet_id of
           Inl e \<Rightarrow> Inl e
         | Inr ts \<Rightarrow>
             get_data fi include_dnr include_additional rest tweets_data annos_data
               (targets @ ts))))"

definition election ::
  "finditer \<Rightarrow> bool \<Rightarrow> bool \<Rightarrow> (string \<times> tweet_data) list \<Rightarrow> (string \<times> anno_data) list
     \<Rightarrow> string list \<Rightarrow> string list \<Rightarrow> error + (TargetCollection \<times> TargetCollection)"
where
  \<comment> \<open>The folder is given by the files of \<^verbatim>\<open>tweets/\<close> and \<^verbatim>\<open>annotations/\<close> and the lines of
      \<^verbatim>\<open>train_id.txt\<close> and \<^verbatim>\<open>test_id.txt\<close>.\<close>
  "election fi include_dnr include_additional tweet_files anno_files train_ids test_ids =
     (let tweets_data = get_file_data tweet_files Map.empty;
          annotations_data = get_file_data anno_files Map.empty
      in case get_data fi include_dnr include_additional train_ids tweets_data annotations_data []
         of Inl e \<Rightarrow> Inl e
          | Inr train_data \<Rightarrow>
         (case get_data fi include_dnr include_additional test_ids tweets_data annotations_data []
          of Inl e \<Rightarrow> Inl e
           | Inr test_data \<Rightarrow> Inr (train_data, test_data)))"

section \<open>The tokeniser wrappers\<close>

fun type_name :: "pyval \<Rightarrow> string" where
  \<comment> \<open>\<^verbatim>\<open>str(type(v))\<close>.\<close>
  "type_name PNone = ''<class 'NoneType'>''"
| "type_name (PBool b) = ''<class 'bool'>''"
| "type_name (PInt i) = ''<class 'int'>''"
| "type_name (PStr s) = ''<class 'str'>''"
| "type_name (PList l) = ''<class 'list'>''"

type_synonym tokeniser = "string \<Rightarrow> error + string list"

definition whitespace :: "pyval \<Rightarrow> error + string list" where
  "whitespace text =
     (case text of
        PStr s \<Rightarrow> Inr (split s)
      | _ \<Rightarrow> Inl (ValueError (''The paramter must be of type str not '' @ type_name text)))"

definition ark_twokenize :: "tokeniser \<Rightarrow> pyval \<Rightarrow> error + string list" where
  \<comment> \<open>The parameter is \<^verbatim>\<open>twokenize.tokenizeRawTweetText\<close>, an external library.\<close>
  "ark_twokenize tokenizeRawTweetText text =
     (case text of
        PStr s \<Rightarrow> tokenizeRawTweetText s
      | _ \<Rightarrow> Inl (ValueError (''The paramter must be of type str not '' @ type_name text)))"

definition stanford :: "tokeniser \<Rightarrow> pyval \<Rightarrow> error + string list" where
  \<comment> \<open>The parameter is \<^verbatim>\<open>stanford_tools.tokenise\<close>, which calls a CoreNLP server.\<close>
  "stanford tokenise text =
     (case text of
        PStr s \<Rightarrow> tokenise s
      | _ \<Rightarrow> Inl (ValueError (''The paramter must be of type str not '' @ type_name text)))"

definition moses :: "tokeniser \<Rightarrow> pyval \<Rightarrow> error + string list" where
  \<comment> \<open>The parameter is the \<^verbatim>\<open>MosesTokenizer('en')\<close> object applied to a text.\<close>
  "moses tokeniser text =
     (case text of
        PStr s \<Rightarrow> tokeniser s
      | _ \<Rightarrow> Inl (ValueError (''The paramter must be of type str not '' @ type_name text)))"

section \<open>Specification predicates and example data\<close>

subsection \<open>Spans and occurrences\<close>

definition shift_matches :: "string \<Rightarrow> string \<Rightarrow> int \<Rightarrow> bool" where
  \<comment> \<open>The substring of the text at \<open>[start, start + len(target))\<close> equals the target,
      case-insensitively.\<close>
  "shift_matches tweet_text target start =
     (lower (py_slice tweet_text start (start + int (length target))) = lower target)"

definition span_matches :: "Target \<Rightarrow> pyval \<times> pyval \<Rightarrow> bool" where
  \<comment> \<open>The span is a pair of ints and the slice of the text at it, lower-cased, is the
      lower-cased target.\<close>
  "span_matches t sp =
     (case (fst sp, snd sp, t_text t) of
        (PInt a, PInt b, PStr tx) \<Rightarrow> lower (py_slice tx a b) = lower (t_target t)
      | _ \<Rightarrow> False)"

definition spans_match :: "Target \<Rightarrow> bool" where
  "spans_match t = list_all (span_matches t) (t_spans t)"

definition span_in_lowered :: "Target \<Rightarrow> pyval \<times> pyval \<Rightarrow> bool" where
  \<comment> \<open>The span is a pair of ints and the slice of the lower-cased text at it is the
      lower-cased target.\<close>
  "span_in_lowered t sp =
     (case (fst sp, snd sp, t_text t) of
        (PInt a, PInt b, PStr tx) \<Rightarrow> py_slice (lower tx) a b = lower (t_target t)
      | _ \<Rightarrow> False)"

definition spans_in_lowered :: "Target \<Rightarrow> bool" where
  "spans_in_lowered t = list_all (span_in_lowered t) (t_spans t)"

definition plain :: "string \<Rightarrow> bool" where
  \<comment> \<open>No character of the string is special in a regular expression.\<close>
  "plain p = list_all (\<lambda>c. \<not> re_special c) p"

definition occurs_at :: "string \<Rightarrow> string \<Rightarrow> nat \<Rightarrow> bool" where
  \<comment> \<open>The string \<open>p\<close> stands in \<open>tx\<close> at offset \<open>i\<close>.\<close>
  "occurs_at p tx i = (i + length p \<le> length tx \<and> take (length p) (drop i tx) = p)"

definition occurrences :: "string \<Rightarrow> string \<Rightarrow> span list \<Rightarrow> bool" where
  \<comment> \<open>The spans are the occurrences of \<open>p\<close> in \<open>tx\<close> found by a literal search from left
      to right: each span is an occurrence, each starts at or after the end of the one
      before it, and every occurrence of \<open>p\<close> is one of the spans or starts inside one
      (so that only occurrences overlapping a reported one are left out).\<close>
  "occurrences p tx sps =
     (list_all (\<lambda>sp. 0 \<le> fst sp \<and> snd sp = fst sp + int (length p)
                  \<and> occurs_at p tx (nat (fst sp))) sps
      \<and> sorted_wrt (\<lambda>a b. snd a \<le> fst b \<and> fst a < fst b) sps
      \<and> list_all
           (\<lambda>i. occurs_at p tx i \<longrightarrow>
                  list_ex (\<lambda>sp. fst sp \<le> int i \<and> (int i < snd sp \<or> fst sp = int i)) sps)
           [0..<Suc (length tx)])"

definition literal_search :: "finditer \<Rightarrow> string \<Rightarrow> string \<Rightarrow> bool" where
  \<comment> \<open>The search for the pattern \<open>p\<close> in \<open>tx\<close> returns, and returns the occurrences of
      \<open>p\<close> as a literal string.\<close>
  "literal_search fi p tx = (case fi p tx of Inl e \<Rightarrow> False | Inr sps \<Rightarrow> occurrences p tx sps)"

subsection \<open>Groups of three lines\<close>

fun chunk3 :: "'a list \<Rightarrow> ('a \<times> 'a \<times> 'a) list" where
  \<comment> \<open>The complete groups of three consecutive lines; a trailing group of one or two
      lines is not among them.\<close>
  "chunk3 (a # b # c # rest) = (a, b, c) # chunk3 rest"
| "chunk3 _ = []"

definition dong_record :: "finditer \<Rightarrow> nat \<Rightarrow> string \<times> string \<times> string \<Rightarrow> error + Target" where
  \<comment> \<open>What the third line of a group does with the group, when the collection holds
      \<open>k\<close> Targets: the error raised, or the Target added.\<close>
  "dong_record fi k r =
     (case r of (a, b, c) \<Rightarrow>
        (case py_int (strip c) of
           None \<Rightarrow> Inl (ValueError (invalid_literal (strip c)))
         | Some sentiment \<Rightarrow>
             if sentiment \<notin> set sentiment_range then
               Inl (ValueError (''The sentiment has to be one of the following values ''
                      @ ''[-1, 0, 1]'' @ '' not '' @ str_int sentiment))
             else
               (case dong_offsets fi (strip a) (strip b) of
                  Inl e \<Rightarrow> Inl e
                | Inr offsets \<Rightarrow>
                    Inr \<lparr>t_spans = map int_span offsets, t_target_id = str_nat k,
                         t_target = strip b, t_text = PStr (strip a),
                         t_sentiment = PInt sentiment, t_sentence_id = None\<rparr>)))"

fun dong_records :: "finditer \<Rightarrow> nat \<Rightarrow> (string \<times> string \<times> string) list \<Rightarrow> error + Target list" where
  "dong_records fi k [] = Inr []"
| "dong_records fi k (r # rs) =
     (case dong_record fi k r of
        Inl e \<Rightarrow> Inl e
      | Inr t \<Rightarrow> map_sum id (Cons t) (dong_records fi (k + 1) rs))"

definition example_dong_file :: "string list" where
  "example_dong_file =
     [''The Cat sat on the mat '', ''cat'', ''1'', ''I love New York'', ''New York'', ''-1'']"

subsection \<open>Sentiments of the XML parser\<close>

definition aspects_ok :: "aspect_term_data list option \<Rightarrow> bool" where
  "aspects_ok a = (case a of None \<Rightarrow> True | Some ds \<Rightarrow> list_all (\<lambda>d. a_sentiment d \<in> {-2, -1, 0, 1}) ds)"

definition sentiment_in_table :: "Target \<Rightarrow> bool" where
  "sentiment_in_table t = (t_sentiment t \<in> {PInt (-2), PInt (-1), PInt 0, PInt 1})"

definition example_aspect_terms :: "string \<Rightarrow> element" where
  \<comment> \<open>An \<^verbatim>\<open>aspectTerms\<close> element with one \<^verbatim>\<open>aspectTerm\<close> of the given polarity.\<close>
  "example_aspect_terms polarity =
     Element ''aspectTerms'' [] None
       [Element ''aspectTerm''
          [(''term'', ''service''), (''polarity'', polarity), (''from'', ''0''), (''to'', ''4'')]
          None []]"

definition example_sentences :: "string \<Rightarrow> element" where
  "example_sentences polarity =
     Element ''sentences'' [] None
       [Element ''sentence'' [(''id'', ''s1'')] None
          [Element ''text'' [] (Some ''good food'') [], example_aspect_terms polarity]]"

definition polarity_table :: "string \<Rightarrow> int option" where
  \<comment> \<open>The fixed table of the specification: conflict -2, negative -1, neutral 0,
      positive 1, and no value for any other polarity.\<close>
  "polarity_table p =
     (if p = ''conflict'' then Some (-2)
      else if p = ''negative'' then Some (-1)
      else if p = ''neutral'' then Some 0
      else if p = ''positive'' then Some 1
      else None)"

definition aspect_entry :: "string \<Rightarrow> nat \<Rightarrow> element \<Rightarrow> aspect_term_data option" where
  \<comment> \<open>The entry of the aspect term at position \<open>i\<close> of a sentence: its sentiment is the
      table's value for its polarity. There is none when an attribute is missing or the
      polarity is outside the table.\<close>
  "aspect_entry sid i t =
     (case map_of (el_attrib t) ''polarity'' of
        None \<Rightarrow> None
      | Some p \<Rightarrow>
     (case polarity_table p of
        None \<Rightarrow> None
      | Some v \<Rightarrow>
     (case map_of (el_attrib t) ''term'' of
        None \<Rightarrow> None
      | Some trm \<Rightarrow>
     (case map_of (el_attrib t) ''from'' of
        None \<Rightarrow> None
      | Some frm \<Rightarrow>
     (case map_of (el_attrib t) ''to'' of
        None \<Rightarrow> None
      | Some tto \<Rightarrow>
          Some \<lparr>a_target_id = sid @ str_nat i, a_target = trm, a_sentiment = v,
                a_spans = [(PStr frm, PStr tto)]\<rparr>)))))"

definition term_sentiment :: "element \<Rightarrow> (string \<times> pyval) option" where
  \<comment> \<open>The term of an aspect term with the table's value for its polarity.\<close>
  "term_sentiment a =
     (case map_of (el_attrib a) ''term'' of
        None \<Rightarrow> None
      | Some trm \<Rightarrow>
     (case map_of (el_attrib a) ''polarity'' of
        None \<Rightarrow> None
      | Some p \<Rightarrow> map_option (\<lambda>v. (trm, PInt v)) (polarity_table p)))"

definition from_aspect_terms :: "element \<Rightarrow> string \<times> pyval \<Rightarrow> bool" where
  \<comment> \<open>The pair is the term and table sentiment of an aspect term of this
      \<^verbatim>\<open>aspectTerms\<close> element.\<close>
  "from_aspect_terms c ts =
     (el_tag c = ''aspectTerms'' \<and> list_ex (\<lambda>a. term_sentiment a = Some ts) (el_children c))"

definition from_aspect_term :: "element list \<Rightarrow> Target \<Rightarrow> bool" where
  \<comment> \<open>The Target has the term of an aspect term of one of the sentences as its target
      and the table's value for that aspect term's polarity as its sentiment.\<close>
  "from_aspect_term sentences t =
     list_ex (\<lambda>s. list_ex (\<lambda>c. from_aspect_terms c (t_target t, t_sentiment t)) (el_children s))
       sentences"

definition aspects_from :: "element list \<Rightarrow> aspect_term_data list option \<Rightarrow> bool" where
  "aspects_from ch a =
     (case a of
        None \<Rightarrow> True
      | Some ds \<Rightarrow>
          list_ex (\<lambda>c. list_all (\<lambda>d. from_aspect_terms c (a_target d, PInt (a_sentiment d))) ds) ch)"

definition entry_target :: "pyval \<Rightarrow> aspect_term_data \<Rightarrow> Target" where
  \<comment> \<open>The Target of an entry of a sentence with the given text.\<close>
  "entry_target tx d =
     \<lparr>t_spans = a_spans d, t_target_id = a_target_id d, t_target = a_target d,
      t_text = tx, t_sentiment = PInt (a_sentiment d), t_sentence_id = None\<rparr>"

definition standard_sentence :: "element \<Rightarrow> bool" where
  \<comment> \<open>A sentence with an id whose children are its \<^verbatim>\<open>text\<close> and one \<^verbatim>\<open>aspectTerms\<close>
      element, in this order.\<close>
  "standard_sentence s =
     (case (map_of (el_attrib s) ''id'', el_children s) of
        (Some sid, [tx, ats]) \<Rightarrow> el_tag tx = ''text'' \<and> el_tag ats = ''aspectTerms''
      | _ \<Rightarrow> False)"

definition sentence_targets :: "element \<Rightarrow> Target option list" where
  \<comment> \<open>For each aspect term of a standard sentence, in order: the Target with the table's
      value for its polarity, the sentence's text and the id made of the sentence id and
      the position; none when an attribute is missing or the polarity is outside the
      table.\<close>
  "sentence_targets s =
     (case (map_of (el_attrib s) ''id'', el_children s) of
        (Some sid, [tx, ats]) \<Rightarrow>
          map (\<lambda>(i, a). map_option
                 (entry_target (case el_text tx of None \<Rightarrow> PNone | Some x \<Rightarrow> PStr x))
                 (aspect_entry sid i a))
            (enumerate 0 (el_children ats))
      | _ \<Rightarrow> [])"

subsection \<open>Pattern searches and the allow-list\<close>

definition allow_listed :: "string \<Rightarrow> string \<Rightarrow> bool" where
  \<comment> \<open>The fixed list of lines 205 to 211: three record ids with any target, and two
      pairs of a record id and a target.\<close>
  "allow_listed tweet_id target =
     (tweet_id \<in> set [''81211671026352128'', ''78689580104290305'', ''81209490499960832'']
      \<or> (tweet_id = ''75270720671973376'' \<and> target = ''kippers'')
      \<or> (tweet_id = ''65855178264686592'' \<and> target = ''tax''))"

definition one_match :: "finditer \<Rightarrow> string \<Rightarrow> string \<Rightarrow> bool" where
  \<comment> \<open>The search for the pattern in the lower-cased text yields exactly one match.\<close>
  "one_match fi tweet_text pattern =
     (case fi pattern (lower tweet_text) of Inl e \<Rightarrow> False | Inr ms \<Rightarrow> length ms = 1)"

definition search_fails :: "finditer \<Rightarrow> string \<Rightarrow> string \<Rightarrow> bool" where
  \<comment> \<open>The search raises: the pattern is not a valid regular expression.\<close>
  "search_fails fi tweet_text pattern =
     (case fi pattern (lower tweet_text) of Inl e \<Rightarrow> True | Inr ms \<Rightarrow> False)"

definition target_searches_return :: "finditer \<Rightarrow> string \<Rightarrow> string \<Rightarrow> bool" where
  \<comment> \<open>No search that \<^verbatim>\<open>dong\<close> makes for this target in this text raises: the search for
      the lower-cased target and, when the target has more than one word, the search for
      its words joined without whitespace.\<close>
  "target_searches_return fi tx tg =
     (\<not> search_fails fi tx (lower tg)
      \<and> (1 < length (split (lower tg)) \<longrightarrow> \<not> search_fails fi tx (concat (split (lower tg)))))"

subsection \<open>Records of the election corpus\<close>

definition claimed_tweet_id :: "string \<Rightarrow> string" where
  \<comment> \<open>What the specification says of the record id: the file name without its extension
      and without the one leading prefix digit.\<close>
  "claimed_tweet_id file_name =
     (let n = length file_name;
          stem = (if 5 \<le> n \<and> drop (n - 5) file_name = ''.json'' then take (n - 5) file_name
                  else file_name)
      in if stem \<noteq> [] \<and> hd stem = CHR ''5'' then tl stem else stem)"

definition example_tweet :: tweet_data where
  "example_tweet = \<lparr>content = ''I like kippers'', entities = []\<rparr>"

definition example_anno :: "string \<Rightarrow> anno_data" where
  "example_anno target = \<lparr>items = [], additional_items = AdditionalDict [(target, ''positive'')]\<rparr>"

definition example_entity_tweet :: tweet_data where
  "example_entity_tweet =
     \<lparr>content = ''I like Kippers'',
      entities = [\<lparr>e_entity = ''kippers'', e_id = 4, e_offset = 8\<rparr>]\<rparr>"

definition example_entity_anno :: anno_data where
  "example_entity_anno = \<lparr>items = [(''4'', ''negative'')], additional_items = AdditionalOther\<rparr>"

section \<open>Lemmas about the string operations\<close>

lemma py_slice_inside:
  assumes "0 \<le> a" and "a \<le> b"
  shows "py_slice s a b = take (nat (b - a)) (drop (nat a) s)"
proof (cases "a \<le> int (length s)")
  case True
  then show ?thesis using assms
    by (auto simp: py_slice_def Let_def min_def intro!: take_all_iff[THEN iffD2] nat_mono)
next
  case False
  then show ?thesis using assms by (simp add: py_slice_def Let_def min_def)
qed

lemma split_from_words:
  "\<forall>c \<in> set w. \<not> is_space c \<Longrightarrow> v \<in> set (split_from w s)
     \<Longrightarrow> v \<noteq> [] \<and> (\<forall>c \<in> set v. \<not> is_space c)"
proof (induction w s rule: split_from.induct)
  case (1 w)
  then show ?case by (simp split: if_splits)
next
  case (2 w c cs)
  note nosp = \<open>\<forall>c \<in> set w. \<not> is_space c\<close>
  note mem = \<open>v \<in> set (split_from w (c # cs))\<close>
  show ?case
  proof (cases "is_space c")
    case True
    show ?thesis
    proof (cases "w = []")
      case True
      with \<open>is_space c\<close> mem have "v \<in> set (split_from [] cs)" by simp
      with "2.IH"(1) [OF \<open>is_space c\<close> True] show ?thesis by simp
    next
      case False
      with \<open>is_space c\<close> mem have "v = w \<or> v \<in> set (split_from [] cs)" by simp
      then show ?thesis
      proof
        assume "v = w"
        with False nosp show ?thesis by simp
      next
        assume "v \<in> set (split_from [] cs)"
        with "2.IH"(2) [OF \<open>is_space c\<close> False] show ?thesis by simp
      qed
    qed
  next
    case False
    with mem have m: "v \<in> set (split_from (w @ [c]) cs)" by simp
    from nosp False have "\<forall>x \<in> set (w @ [c]). \<not> is_space x" by simp
    from "2.IH"(3) [OF False this m] show ?thesis .
  qed
qed

lemma split_from_concat:
  "concat (split_from w s) = w @ filter (\<lambda>c. \<not> is_space c) s"
  by (induction w s rule: split_from.induct) simp_all

lemma split_words:
  "(\<forall>v \<in> set (split s). v \<noteq> [] \<and> (\<forall>c \<in> set v. \<not> is_space c))
   \<and> concat (split s) = filter (\<lambda>c. \<not> is_space c) s"
proof -
  have "\<forall>c \<in> set ([] :: string). \<not> is_space c" by simp
  then have "\<And>v. v \<in> set (split_from [] s) \<Longrightarrow> v \<noteq> [] \<and> (\<forall>c \<in> set v. \<not> is_space c)"
    by (rule split_from_words)
  then show ?thesis
    unfolding split_def using split_from_concat [of "[]" s] by simp
qed

lemma get_offsets_loop_find:
  "get_offsets_loop off txt tgt shifts =
     (case find (\<lambda>s. shift_matches txt tgt (off + s)) shifts of
        None \<Rightarrow> None
      | Some s \<Rightarrow> Some [(off + s, off + s + int (length tgt))])"
  by (induction shifts) (simp_all add: shift_matches_def Let_def)

section \<open>Hint-shift resolution (C2)\<close>

text \<open>
  C2. \<^verbatim>\<open>get_offsets\<close> tries the shifts 0, -1, +1 in that order. For the first shift whose
  slice of the text, lower-cased, equals the lower-cased target, it returns the one span
  \<open>(offset + shift, offset + shift + len(target))\<close>; when none of the three matches it raises
  the ValueError reporting the mismatch. The substring is Python's slice, which for a start
  inside the text is the plain substring. For "I like kippers", "kippers" and hint 8 the
  span starts at 7.
\<close>

theorem get_offsets_first_matching_shift:
  "get_offsets tweet_id ent txt tgt =
     (let off = e_offset ent in
      if shift_matches txt tgt off then Inr [(off, off + int (length tgt))]
      else if shift_matches txt tgt (off - 1) then Inr [(off - 1, off - 1 + int (length tgt))]
      else if shift_matches txt tgt (off + 1) then Inr [(off + 1, off + 1 + int (length tgt))]
      else Inl (ValueError (''Offset '' @ str_int off @ '' does not match target text ''
                  @ tgt @ ''. Full text '' @ txt @ [CHR 0x0A] @ ''id '' @ tweet_id)))
   \<and> (\<forall>start \<ge> 0. shift_matches txt tgt start =
         (lower (take (length tgt) (drop (nat start) txt)) = lower tgt))
   \<and> get_offsets ''75270720671973376'' \<lparr>e_entity = ''kippers'', e_id = 0, e_offset = 8\<rparr>
        ''I like kippers'' ''kippers'' = Inr [(7, 14)]"
proof (intro conjI allI impI)
  show "get_offsets tweet_id ent txt tgt =
     (let off = e_offset ent in
      if shift_matches txt tgt off then Inr [(off, off + int (length tgt))]
      else if shift_matches txt tgt (off - 1) then Inr [(off - 1, off - 1 + int (length tgt))]
      else if shift_matches txt tgt (off + 1) then Inr [(off + 1, off + 1 + int (length tgt))]
      else Inl (ValueError (''Offset '' @ str_int off @ '' does not match target text ''
                  @ tgt @ ''. Full text '' @ txt @ [CHR 0x0A] @ ''id '' @ tweet_id)))"
    by (simp add: get_offsets_def get_offsets_loop_find Let_def)
next
  fix start :: int
  assume "0 \<le> start"
  then show "shift_matches txt tgt start =
         (lower (take (length tgt) (drop (nat start) txt)) = lower tgt)"
    by (simp add: shift_matches_def py_slice_inside)
next
  show "get_offsets ''75270720671973376'' \<lparr>e_entity = ''kippers'', e_id = 0, e_offset = 8\<rparr>
        ''I like kippers'' ''kippers'' = Inr [(7, 14)]"
    by code_simp
qed

theorem get_offsets_first_matching_shift_witness:
  "(0::int) \<le> 7
   \<and> shift_matches ''I like kippers'' ''Kippers'' 7
   \<and> get_offsets ''75270720671973376'' \<lparr>e_entity = ''Kippers'', e_id = 3, e_offset = 8\<rparr>
         ''I like kippers'' ''Kippers'' = Inr [(7, 14)]"
proof -
  note inst = get_offsets_first_matching_shift
    [of "''75270720671973376''" "\<lparr>e_entity = ''Kippers'', e_id = 3, e_offset = 8\<rparr>"
        "''I like kippers''" "''Kippers''"]
  have sub: "lower (take (length ''Kippers'') (drop (nat 7) ''I like kippers'')) = lower ''Kippers''"
    by code_simp
  have m7: "shift_matches ''I like kippers'' ''Kippers'' 7"
    using inst [THEN conjunct2, THEN conjunct1, rule_format, of 7] sub by simp
  have m8: "\<not> shift_matches ''I like kippers'' ''Kippers'' 8"
    by code_simp
  have "get_offsets ''75270720671973376'' \<lparr>e_entity = ''Kippers'', e_id = 3, e_offset = 8\<rparr>
         ''I like kippers'' ''Kippers'' = Inr [(7, 14)]"
    using inst [THEN conjunct1] m7 m8 by (simp add: Let_def)
  with m7 show ?thesis by simp
qed

section \<open>Record ids from file names\<close>

text \<open>
  C9. The record id should be the file name with the extension removed and the single
  leading prefix digit stripped, nothing else. \<^verbatim>\<open>rstrip('.json')\<close> and \<^verbatim>\<open>lstrip('5')\<close>
  strip sets of characters instead: for the file \<^verbatim>\<open>5512.json\<close> (prefix 5, record id 512)
  the program keys the data under 12, and for \<^verbatim>\<open>5120s.json\<close> under 120.
\<close>

theorem file_tweet_id_strips_too_much:
  "file_tweet_id ''5512.json'' = ''12'' \<and> claimed_tweet_id ''5512.json'' = ''512''
   \<and> file_tweet_id ''5120s.json'' = ''120'' \<and> claimed_tweet_id ''5120s.json'' = ''120s''
   \<and> (\<exists>data. get_file_data [(''5512.json'', j)] Map.empty = data
          \<and> data ''12'' = Some j \<and> data ''512'' = None)"
proof -
  have a: "file_tweet_id ''5512.json'' = ''12''" by code_simp
  have b: "claimed_tweet_id ''5512.json'' = ''512''" by code_simp
  have c: "file_tweet_id ''5120s.json'' = ''120''" by code_simp
  have d: "claimed_tweet_id ''5120s.json'' = ''120s''" by code_simp
  have e: "get_file_data [(''5512.json'', j)] Map.empty ''12'' = Some j"
    by (simp add: a)
  have f: "get_file_data [(''5512.json'', j)] Map.empty ''512'' = None"
    by (simp add: a)
  from a b c d e f show ?thesis by blast
qed

section \<open>Tokenisers\<close>

text \<open>
  C8, as stated, fails: for a value that is not a string the wrappers raise, but the
  exception is a ValueError, not a TypeError.
\<close>

theorem whitespace_no_type_error:
  "\<not> (\<exists>m. whitespace (PInt 5) = Inl (TypeError m))
   \<and> whitespace (PInt 5) = Inl (ValueError ''The paramter must be of type str not <class 'int'>'')"
  by (simp add: whitespace_def)

text \<open>
  C8, amended. For a value that is not a string each of the four wrappers raises the
  ValueError that names the value's type, and returns no tokens. For a string,
  \<^verbatim>\<open>whitespace\<close> returns \<^verbatim>\<open>text.split()\<close>: the non-empty whitespace-free words of the
  text in order (their concatenation is the text without its whitespace); each of the
  other three returns what its external tokeniser returns for the string.
\<close>

theorem tokenisers_value_error:
  "((\<forall>s. v \<noteq> PStr s) \<longrightarrow>
       whitespace v
         = Inl (ValueError (''The paramter must be of type str not '' @ type_name v))
     \<and> ark_twokenize tok v
         = Inl (ValueError (''The paramter must be of type str not '' @ type_name v))
     \<and> stanford tok v
         = Inl (ValueError (''The paramter must be of type str not '' @ type_name v))
     \<and> moses tok v
         = Inl (ValueError (''The paramter must be of type str not '' @ type_name v)))
   \<and> whitespace (PStr s) = Inr (split s)
   \<and> (\<forall>v \<in> set (split s). v \<noteq> [] \<and> (\<forall>c \<in> set v. \<not> is_space c))
   \<and> concat (split s) = filter (\<lambda>c. \<not> is_space c) s
   \<and> ark_twokenize tok (PStr s) = tok s
   \<and> stanford tok (PStr s) = tok s
   \<and> moses tok (PStr s) = tok s"
proof -
  have "(\<forall>s. v \<noteq> PStr s) \<longrightarrow>
       whitespace v
         = Inl (ValueError (''The paramter must be of type str not '' @ type_name v))
     \<and> ark_twokenize tok v
         = Inl (ValueError (''The paramter must be of type str not '' @ type_name v))
     \<and> stanford tok v
         = Inl (ValueError (''The paramter must be of type str not '' @ type_name v))
     \<and> moses tok v
         = Inl (ValueError (''The paramter must be of type str not '' @ type_name v))"
    by (cases v) (simp_all add: whitespace_def ark_twokenize_def stanford_def moses_def)
  moreover have "whitespace (PStr s) = Inr (split s)"
    by (simp add: whitespace_def)
  moreover have "ark_twokenize tok (PStr s) = tok s" "stanford tok (PStr s) = tok s"
    "moses tok (PStr s) = tok s"
    by (simp_all add: ark_twokenize_def stanford_def moses_def)
  ultimately show ?thesis using split_words [of s] by blast
qed

theorem tokenisers_value_error_witness:
  "(\<forall>s. PList [PStr ''a b''] \<noteq> PStr s)
   \<and> whitespace (PList [PStr ''a b''])
       = Inl (ValueError ''The paramter must be of type str not <class 'list'>'')
   \<and> moses (\<lambda>s. Inr [s]) (PList [PStr ''a b''])
       = Inl (ValueError ''The paramter must be of type str not <class 'list'>'')
   \<and> whitespace (PStr '' a  bc d '') = Inr [''a'', ''bc'', ''d'']
   \<and> concat (split '' a  bc d '') = ''abcd''"
proof -
  note inst = tokenisers_value_error
    [of "PList [PStr ''a b'']" "\<lambda>s. Inr [s]" "'' a  bc d ''"]
  have ns: "\<forall>s. PList [PStr ''a b''] \<noteq> PStr s" by simp
  have sp: "split '' a  bc d '' = [''a'', ''bc'', ''d'']" by code_simp
  have fl: "filter (\<lambda>c. \<not> is_space c) '' a  bc d '' = ''abcd''" by code_simp
  from inst ns sp fl show ?thesis by simp
qed

section \<open>Polarity table of the XML parser (C7)\<close>

lemma lookup_Inr: "lookup d f k = Inr v \<longleftrightarrow> map_of d k = Some v"
  by (simp add: lookup_def split: option.splits)

lemma lookup_Inl: "lookup d f k = Inl e \<longleftrightarrow> map_of d k = None \<and> e = KeyError (f k)"
  by (auto simp: lookup_def split: option.splits)

lemma sentiment_mapper_table:
  "map_of sentiment_mapper p = Some s \<longleftrightarrow>
     (p = ''conflict'' \<and> s = -2) \<or> (p = ''negative'' \<and> s = -1)
     \<or> (p = ''neutral'' \<and> s = 0) \<or> (p = ''positive'' \<and> s = 1)"
  by (auto simp: sentiment_mapper_def)

lemma extract_loop_step:
  "extract_aspect_terms_loop index (t # rest) sid acc = Inr ds \<Longrightarrow>
     \<exists>p s trm frm tto.
        map_of (el_attrib t) ''polarity'' = Some p \<and> map_of sentiment_mapper p = Some s
      \<and> map_of (el_attrib t) ''term'' = Some trm
      \<and> map_of (el_attrib t) ''from'' = Some frm \<and> map_of (el_attrib t) ''to'' = Some tto
      \<and> extract_aspect_terms_loop (index + 1) rest sid
           (acc @ [\<lparr>a_target_id = sid @ str_nat index, a_target = trm, a_sentiment = s,
                    a_spans = [(PStr frm, PStr tto)]\<rparr>]) = Inr ds"
  by (simp add: Let_def lookup_def split: option.splits sum.splits)

lemma extract_loop_ok:
  "extract_aspect_terms_loop index terms sid acc = Inr ds \<Longrightarrow>
     \<exists>new. ds = acc @ new \<and> length new = length terms
       \<and> (\<forall>i < length terms. \<exists>p s.
              map_of (el_attrib (terms ! i)) ''polarity'' = Some p
            \<and> map_of sentiment_mapper p = Some s \<and> a_sentiment (new ! i) = s)"
proof (induction terms arbitrary: index acc)
  case Nil
  then show ?case by simp
next
  case (Cons t rest)
  from extract_loop_step [OF Cons.prems] obtain p s trm frm tto where
    pol: "map_of (el_attrib t) ''polarity'' = Some p" "map_of sentiment_mapper p = Some s"
    and rec: "extract_aspect_terms_loop (index + 1) rest sid
           (acc @ [\<lparr>a_target_id = sid @ str_nat index, a_target = trm, a_sentiment = s,
                    a_spans = [(PStr frm, PStr tto)]\<rparr>]) = Inr ds"
    by blast
  from Cons.IH [OF rec] obtain new where
    new: "ds = (acc @ [\<lparr>a_target_id = sid @ str_nat index, a_target = trm, a_sentiment = s,
                    a_spans = [(PStr frm, PStr tto)]\<rparr>]) @ new" "length new = length rest"
      "\<forall>i < length rest. \<exists>p s.
              map_of (el_attrib (rest ! i)) ''polarity'' = Some p
            \<and> map_of sentiment_mapper p = Some s \<and> a_sentiment (new ! i) = s"
    by blast
  let ?d = "\<lparr>a_target_id = sid @ str_nat index, a_target = trm, a_sentiment = s,
                    a_spans = [(PStr frm, PStr tto)]\<rparr>"
  have "ds = acc @ (?d # new)" using new(1) by simp
  moreover have "length (?d # new) = length (t # rest)" using new(2) by simp
  moreover have "\<forall>i < length (t # rest). \<exists>p s.
              map_of (el_attrib ((t # rest) ! i)) ''polarity'' = Some p
            \<and> map_of sentiment_mapper p = Some s \<and> a_sentiment ((?d # new) ! i) = s"
  proof (intro allI impI)
    fix i assume "i < length (t # rest)"
    show "\<exists>p s. map_of (el_attrib ((t # rest) ! i)) ''polarity'' = Some p
            \<and> map_of sentiment_mapper p = Some s \<and> a_sentiment ((?d # new) ! i) = s"
    proof (cases i)
      case 0
      with pol show ?thesis by simp
    next
      case (Suc j)
      with \<open>i < length (t # rest)\<close> new(3) show ?thesis by simp
    qed
  qed
  ultimately show ?case by blast
qed

lemma extract_loop_key_error:
  "extract_aspect_terms_loop index terms sid acc = Inl e \<Longrightarrow> \<exists>k. e = KeyError k"
proof (induction terms arbitrary: index acc)
  case Nil
  then show ?case by simp
next
  case (Cons t rest)
  then show ?case
    by (auto simp: Let_def lookup_def split: option.splits sum.splits)
qed


lemma foldl_add: "foldl add coll ts = coll @ ts"
  by (induction ts arbitrary: coll) (simp_all add: add_def)

lemma extract_ok:
  assumes "extract_aspect_terms ats sid = Inr ds"
  shows "length ds = length (el_children ats)"
    and "\<forall>i < length ds. \<exists>p s.
              map_of (el_attrib (el_children ats ! i)) ''polarity'' = Some p
            \<and> map_of sentiment_mapper p = Some s \<and> a_sentiment (ds ! i) = s"
  using extract_loop_ok [of 0 "el_children ats" sid "[]" ds] assms
  by (auto simp: extract_aspect_terms_def)

lemma extract_ok_range:
  assumes "extract_aspect_terms ats sid = Inr ds" and "d \<in> set ds"
  shows "a_sentiment d \<in> {-2, -1, 0, 1}"
proof -
  from assms(2) obtain i where i: "i < length ds" "ds ! i = d"
    by (auto simp: in_set_conv_nth)
  with extract_ok(2) [OF assms(1)] obtain p s where
    "map_of sentiment_mapper p = Some s" "a_sentiment d = s" by auto
  then show ?thesis by (auto simp: sentiment_mapper_table)
qed

lemma extract_bad_polarity:
  assumes "t \<in> set (el_children ats)" and "map_of (el_attrib t) ''polarity'' = Some p"
    and "p \<notin> {''conflict'', ''negative'', ''neutral'', ''positive''}"
  shows "\<exists>k. extract_aspect_terms ats sid = Inl (KeyError k)"
proof (cases "extract_aspect_terms ats sid")
  case (Inl e)
  then show ?thesis
    using extract_loop_key_error [of 0 "el_children ats" sid "[]" e]
    by (simp add: extract_aspect_terms_def)
next
  case (Inr ds)
  from assms(1) obtain i where i: "i < length (el_children ats)" "el_children ats ! i = t"
    by (auto simp: in_set_conv_nth)
  with extract_ok [OF Inr] assms(2) obtain s where "map_of sentiment_mapper p = Some s"
    by auto
  with assms(3) show ?thesis by (auto simp: sentiment_mapper_table)
qed

lemma sentence_loop_ok:
  "sentence_loop index ch sid a ti = Inr (r, ti') \<Longrightarrow> aspects_ok a \<Longrightarrow>
     aspects_ok r \<and> (\<forall>c \<in> set ch. el_tag c = ''aspectTerms'' \<longrightarrow> (\<exists>ds. extract_aspect_terms c sid = Inr ds))"
proof (induction ch arbitrary: index a ti)
  case Nil
  then show ?case by simp
next
  case (Cons c rest)
  show ?case
  proof (cases "el_tag c = ''text''")
    case True
    with Cons.prems Cons.IH [of "index + 1" a "Some index"] show ?thesis by simp
  next
    case nt: False
    show ?thesis
    proof (cases "el_tag c = ''aspectTerms''")
      case False
      with nt Cons.prems Cons.IH [of "index + 1" a ti] show ?thesis by simp
    next
      case True
      with nt Cons.prems obtain ds where
        ds: "extract_aspect_terms c sid = Inr ds"
        and rec: "sentence_loop (index + 1) rest sid (Some ds) ti = Inr (r, ti')"
        by (auto split: sum.splits)
      have "aspects_ok (Some ds)"
        using extract_ok_range [OF ds] by (simp add: aspects_ok_def list_all_iff)
      from Cons.IH [OF rec this] ds show ?thesis by simp
    qed
  qed
qed

lemma semeval_loop_ok:
  "semeval_loop fp ss coll = Inr res \<Longrightarrow> list_all sentiment_in_table coll \<Longrightarrow>
     list_all sentiment_in_table res
     \<and> (\<forall>s \<in> set ss. \<forall>c \<in> set (el_children s). el_tag c = ''aspectTerms'' \<longrightarrow>
           (\<exists>sid ds. extract_aspect_terms c sid = Inr ds))"
proof (induction ss arbitrary: coll)
  case Nil
  then show ?case by simp
next
  case (Cons s rest)
  from Cons.prems(1) obtain sid where sid: "lookup (el_attrib s) id ''id'' = Inr sid"
    by (auto split: sum.splits)
  with Cons.prems(1) obtain r ti where
    sl: "sentence_loop 0 (el_children s) sid None None = Inr (r, ti)"
    by (cases "sentence_loop 0 (el_children s) sid None None") auto
  from sentence_loop_ok [OF sl] have rok: "aspects_ok r"
    and ch: "\<forall>c \<in> set (el_children s). el_tag c = ''aspectTerms'' \<longrightarrow> (\<exists>ds. extract_aspect_terms c sid = Inr ds)"
    by (simp_all add: aspects_ok_def)
  show ?case
  proof (cases r)
    case None
    with Cons.prems sid sl have "semeval_loop fp rest coll = Inr res" by simp
    from Cons.IH [OF this Cons.prems(2)] ch show ?thesis by fastforce
  next
    case (Some ds)
    with Cons.prems(1) sid sl obtain k where ti: "ti = Some k"
      by (cases ti) auto
    let ?txt = "case el_text (el_children s ! k) of None \<Rightarrow> PNone | Some x \<Rightarrow> PStr x"
    from Cons.prems(1) sid sl Some ti have
      rec: "semeval_loop fp rest (coll @ map aspect_target (add_text ds ?txt)) = Inr res"
      by (simp add: Let_def foldl_add split: if_splits)
    have "list_all sentiment_in_table (map aspect_target (add_text ds ?txt))"
      using rok Some
      by (simp add: aspects_ok_def list_all_iff add_text_def aspect_target_def
            sentiment_in_table_def)
    with Cons.prems(2) have "list_all sentiment_in_table (coll @ map aspect_target (add_text ds ?txt))"
      by simp
    from Cons.IH [OF rec this] ch show ?thesis by fastforce
  qed
qed

lemma mapper_is_table: "map_of sentiment_mapper p = polarity_table p"
  by (simp add: sentiment_mapper_def polarity_table_def)

lemma extract_step_some:
  "aspect_entry sid k t = Some d \<Longrightarrow>
     extract_aspect_terms_loop k (t # rest) sid acc
       = extract_aspect_terms_loop (k + 1) rest sid (acc @ [d])"
  by (auto simp: aspect_entry_def lookup_def mapper_is_table Let_def split: option.splits)

lemma extract_step_none:
  "aspect_entry sid k t = None \<Longrightarrow>
     \<exists>key. extract_aspect_terms_loop k (t # rest) sid acc = Inl (KeyError key)"
  by (auto simp: aspect_entry_def lookup_def mapper_is_table Let_def split: option.splits)

lemma extract_loop_entries:
  "extract_aspect_terms_loop k terms sid acc = Inr ds \<longleftrightarrow>
     (\<exists>new. ds = acc @ new
        \<and> map Some new = map (\<lambda>(i, t). aspect_entry sid i t) (enumerate k terms))"
proof (induction terms arbitrary: k acc)
  case Nil
  then show ?case by auto
next
  case (Cons t rest)
  show ?case
  proof (cases "aspect_entry sid k t")
    case None
    from extract_step_none [OF None, of rest acc] obtain key where
      "extract_aspect_terms_loop k (t # rest) sid acc = Inl (KeyError key)" by blast
    moreover have "\<not> (\<exists>new. ds = acc @ new
        \<and> map Some new = map (\<lambda>(i, t). aspect_entry sid i t) (enumerate k (t # rest)))"
      using None by (auto simp: map_eq_Cons_conv)
    ultimately show ?thesis by simp
  next
    case (Some d)
    have "extract_aspect_terms_loop k (t # rest) sid acc = Inr ds \<longleftrightarrow>
            extract_aspect_terms_loop (k + 1) rest sid (acc @ [d]) = Inr ds"
      by (simp only: extract_step_some [OF Some])
    also have "\<dots> \<longleftrightarrow> (\<exists>new. ds = (acc @ [d]) @ new
        \<and> map Some new = map (\<lambda>(i, t). aspect_entry sid i t) (enumerate (k + 1) rest))"
      by (rule Cons.IH)
    also have "\<dots> \<longleftrightarrow> (\<exists>new. ds = acc @ new
        \<and> map Some new = map (\<lambda>(i, t). aspect_entry sid i t) (enumerate k (t # rest)))"
    proof
      assume "\<exists>new. ds = (acc @ [d]) @ new
        \<and> map Some new = map (\<lambda>(i, t). aspect_entry sid i t) (enumerate (k + 1) rest)"
      then obtain new where "ds = (acc @ [d]) @ new"
        "map Some new = map (\<lambda>(i, t). aspect_entry sid i t) (enumerate (k + 1) rest)" by blast
      with Some have "ds = acc @ (d # new)
        \<and> map Some (d # new) = map (\<lambda>(i, t). aspect_entry sid i t) (enumerate k (t # rest))"
        by simp
      then show "\<exists>new. ds = acc @ new
        \<and> map Some new = map (\<lambda>(i, t). aspect_entry sid i t) (enumerate k (t # rest))"
        by blast
    next
      assume "\<exists>new. ds = acc @ new
        \<and> map Some new = map (\<lambda>(i, t). aspect_entry sid i t) (enumerate k (t # rest))"
      then obtain new where n: "ds = acc @ new"
        "map Some new = map (\<lambda>(i, t). aspect_entry sid i t) (enumerate k (t # rest))" by blast
      from n(2) Some obtain new' where "new = d # new'"
        "map Some new' = map (\<lambda>(i, t). aspect_entry sid i t) (enumerate (k + 1) rest)"
        by (cases new) auto
      with n(1) have "ds = (acc @ [d]) @ new'
        \<and> map Some new' = map (\<lambda>(i, t). aspect_entry sid i t) (enumerate (k + 1) rest)"
        by simp
      then show "\<exists>new. ds = (acc @ [d]) @ new
        \<and> map Some new = map (\<lambda>(i, t). aspect_entry sid i t) (enumerate (k + 1) rest)"
        by blast
    qed
    finally show ?thesis .
  qed
qed

lemma extract_entries:
  "extract_aspect_terms ats sid = Inr ds \<longleftrightarrow>
     map Some ds = map (\<lambda>(i, t). aspect_entry sid i t) (enumerate 0 (el_children ats))"
  by (simp add: extract_aspect_terms_def extract_loop_entries)

lemma entry_term_sentiment:
  "aspect_entry sid i a = Some d \<Longrightarrow> term_sentiment a = Some (a_target d, PInt (a_sentiment d))"
  by (auto simp: aspect_entry_def term_sentiment_def split: option.splits)

lemma extract_from:
  assumes "extract_aspect_terms c sid = Inr ds" and "el_tag c = ''aspectTerms''"
  shows "list_all (\<lambda>d. from_aspect_terms c (a_target d, PInt (a_sentiment d))) ds"
proof -
  have "from_aspect_terms c (a_target d, PInt (a_sentiment d))" if "d \<in> set ds" for d
  proof -
    from that have "Some d \<in> set (map Some ds)" by simp
    with assms(1) have "Some d \<in> set (map (\<lambda>(i, t). aspect_entry sid i t) (enumerate 0 (el_children c)))"
      by (simp only: extract_entries)
    then obtain i a where "(i, a) \<in> set (enumerate 0 (el_children c))" "aspect_entry sid i a = Some d"
      by auto
    then have "a \<in> set (el_children c)" "term_sentiment a = Some (a_target d, PInt (a_sentiment d))"
      by (auto simp: in_set_enumerate_eq dest: entry_term_sentiment)
    with assms(2) show ?thesis by (auto simp: from_aspect_terms_def list_ex_iff)
  qed
  then show ?thesis by (simp add: list_all_iff)
qed

lemma sentence_loop_from:
  "sentence_loop index ch sid a ti = Inr (r, ti') \<Longrightarrow> set ch \<subseteq> set every \<Longrightarrow>
     aspects_from every a \<Longrightarrow> aspects_from every r"
proof (induction ch arbitrary: index a ti)
  case Nil
  then show ?case by simp
next
  case (Cons c rest)
  from Cons.prems(2) have sub: "set rest \<subseteq> set every" and c: "c \<in> set every" by simp_all
  show ?case
  proof (cases "el_tag c = ''text''")
    case True
    with Cons.prems(1) have "sentence_loop (index + 1) rest sid a (Some index) = Inr (r, ti')"
      by simp
    from Cons.IH [OF this sub Cons.prems(3)] show ?thesis .
  next
    case nt: False
    show ?thesis
    proof (cases "el_tag c = ''aspectTerms''")
      case False
      with nt Cons.prems(1) have "sentence_loop (index + 1) rest sid a ti = Inr (r, ti')"
        by simp
      from Cons.IH [OF this sub Cons.prems(3)] show ?thesis .
    next
      case True
      with nt Cons.prems(1) obtain ds where
        ds: "extract_aspect_terms c sid = Inr ds"
        and rec: "sentence_loop (index + 1) rest sid (Some ds) ti = Inr (r, ti')"
        by (auto split: sum.splits)
      from extract_from [OF ds True] c have "aspects_from every (Some ds)"
        by (auto simp: aspects_from_def list_ex_iff)
      from Cons.IH [OF rec sub this] show ?thesis .
    qed
  qed
qed

lemma semeval_loop_from:
  "semeval_loop fp ss coll = Inr res \<Longrightarrow> set ss \<subseteq> set every \<Longrightarrow>
     list_all (from_aspect_term every) coll \<Longrightarrow> list_all (from_aspect_term every) res"
proof (induction ss arbitrary: coll)
  case Nil
  then show ?case by simp
next
  case (Cons s rest)
  from Cons.prems(2) have sub: "set rest \<subseteq> set every" and s: "s \<in> set every" by simp_all
  from Cons.prems(1) obtain sid where sid: "lookup (el_attrib s) id ''id'' = Inr sid"
    by (auto split: sum.splits)
  with Cons.prems(1) obtain r ti where
    sl: "sentence_loop 0 (el_children s) sid None None = Inr (r, ti)"
    by (cases "sentence_loop 0 (el_children s) sid None None") auto
  have "aspects_from (el_children s) None" by (simp add: aspects_from_def)
  from sentence_loop_from [OF sl subset_refl this] have rf: "aspects_from (el_children s) r" .
  show ?case
  proof (cases r)
    case None
    with Cons.prems(1) sid sl have "semeval_loop fp rest coll = Inr res" by simp
    from Cons.IH [OF this sub Cons.prems(3)] show ?thesis .
  next
    case (Some ds)
    with Cons.prems(1) sid sl obtain k where ti: "ti = Some k"
      by (cases ti) auto
    let ?txt = "case el_text (el_children s ! k) of None \<Rightarrow> PNone | Some x \<Rightarrow> PStr x"
    from Cons.prems(1) sid sl Some ti have
      rec: "semeval_loop fp rest (coll @ map aspect_target (add_text ds ?txt)) = Inr res"
      by (simp add: Let_def foldl_add split: if_splits)
    from rf Some obtain c where c: "c \<in> set (el_children s)"
      "\<forall>d \<in> set ds. from_aspect_terms c (a_target d, PInt (a_sentiment d))"
      by (auto simp: aspects_from_def list_ex_iff list_all_iff)
    have "from_aspect_term every (aspect_target (d, ?txt))" if "d \<in> set ds" for d
      using that c s
      by (auto simp: from_aspect_term_def aspect_target_def list_ex_iff)
    then have "list_all (from_aspect_term every) (map aspect_target (add_text ds ?txt))"
      by (simp add: list_all_iff add_text_def)
    with Cons.prems(3) have
      "list_all (from_aspect_term every) (coll @ map aspect_target (add_text ds ?txt))"
      by simp
    from Cons.IH [OF rec sub this] show ?thesis .
  qed
qed

lemma example_sentences_result:
  "semeval fp (example_sentences p) =
     (case polarity_table p of
        None \<Rightarrow> Inl (KeyError p)
      | Some v \<Rightarrow>
          Inr [\<lparr>t_spans = [(PStr ''0'', PStr ''4'')], t_target_id = ''s10'',
                t_target = ''service'', t_text = PStr ''good food'', t_sentiment = PInt v,
                t_sentence_id = None\<rparr>])"
proof -
  have s: "str_nat 0 = ''0''" by code_simp
  show ?thesis
    by (simp add: semeval_def example_sentences_def example_aspect_terms_def lookup_def
          extract_aspect_terms_def mapper_is_table Let_def add_text_def aspect_target_def
          add_def s
        split: option.splits)
qed

lemma map_Some_the:
  "(\<And>e. e \<in> set es \<Longrightarrow> \<exists>d. e = Some d) \<Longrightarrow> map Some (map the es) = es"
  by (induction es) auto

lemma extract_accepts:
  assumes "\<forall>a \<in> set (el_children ats). \<exists>p trm frm tto.
             map_of (el_attrib a) ''polarity'' = Some p
           \<and> p \<in> {''conflict'', ''negative'', ''neutral'', ''positive''}
           \<and> map_of (el_attrib a) ''term'' = Some trm
           \<and> map_of (el_attrib a) ''from'' = Some frm
           \<and> map_of (el_attrib a) ''to'' = Some tto"
  shows "\<exists>ds. extract_aspect_terms ats sid = Inr ds"
proof -
  let ?es = "map (\<lambda>(i, t). aspect_entry sid i t) (enumerate 0 (el_children ats))"
  have "\<exists>d. e = Some d" if "e \<in> set ?es" for e
  proof -
    from that obtain i a where ia: "(i, a) \<in> set (enumerate 0 (el_children ats))"
      "e = aspect_entry sid i a" by auto
    from ia(1) have "a \<in> set (el_children ats)" by (auto simp: in_set_enumerate_eq)
    with assms obtain p trm frm tto where
      "map_of (el_attrib a) ''polarity'' = Some p"
      "p \<in> {''conflict'', ''negative'', ''neutral'', ''positive''}"
      "map_of (el_attrib a) ''term'' = Some trm"
      "map_of (el_attrib a) ''from'' = Some frm"
      "map_of (el_attrib a) ''to'' = Some tto" by blast
    moreover from this(2) have "polarity_table p \<noteq> None"
      by (auto simp: polarity_table_def)
    ultimately show ?thesis using ia(2)
      by (auto simp: aspect_entry_def)
  qed
  then have "map Some (map the ?es) = ?es"
    by (rule map_Some_the)
  then show ?thesis using extract_entries by blast
qed

lemma standard_sentence_step:
  assumes "standard_sentence s"
  shows "\<exists>sid tx ats. map_of (el_attrib s) ''id'' = Some sid \<and> el_children s = [tx, ats]
     \<and> semeval_loop fp (s # rest) acc =
         (case extract_aspect_terms ats sid of
            Inl e \<Rightarrow> Inl e
          | Inr ds \<Rightarrow>
              semeval_loop fp rest
                (acc @ map (entry_target (case el_text tx of None \<Rightarrow> PNone | Some x \<Rightarrow> PStr x)) ds))"
proof -
  from assms obtain sid tx ats where
    s: "map_of (el_attrib s) ''id'' = Some sid" "el_children s = [tx, ats]"
       "el_tag tx = ''text''" "el_tag ats = ''aspectTerms''"
    by (auto simp: standard_sentence_def split: option.splits list.splits)
  have sl: "sentence_loop 0 [tx, ats] sid None None =
              (case extract_aspect_terms ats sid of
                 Inl e \<Rightarrow> Inl e | Inr ds \<Rightarrow> Inr (Some ds, Some 0))"
    using s(3,4) by (simp split: sum.splits)
  have at: "map aspect_target (add_text ds v) = map (entry_target v) ds" for ds v
    by (simp add: add_text_def aspect_target_def entry_target_def)
  have "semeval_loop fp (s # rest) acc =
         (case extract_aspect_terms ats sid of
            Inl e \<Rightarrow> Inl e
          | Inr ds \<Rightarrow>
              semeval_loop fp rest
                (acc @ map (entry_target (case el_text tx of None \<Rightarrow> PNone | Some x \<Rightarrow> PStr x)) ds))"
    using s(1,2)
    by (simp add: lookup_def sl foldl_add at Let_def del: sentence_loop.simps split: sum.splits)
  with s(1,2) show ?thesis by blast
qed

lemma map_Some_append_iff:
  "(map Some xs = map f ys @ zs) =
     (\<exists>us vs. xs = us @ vs \<and> map Some us = map f ys \<and> map Some vs = zs)"
  by (auto simp: map_eq_append_conv append_eq_map_conv)

lemma semeval_loop_standard:
  "list_all standard_sentence ss \<Longrightarrow>
     (semeval_loop fp ss acc = Inr res) =
     (\<exists>new. res = acc @ new \<and> map Some new = concat (map sentence_targets ss))"
proof (induction ss arbitrary: acc)
  case Nil
  then show ?case by auto
next
  case (Cons s rest)
  from Cons.prems have st: "standard_sentence s" and rs: "list_all standard_sentence rest"
    by simp_all
  from standard_sentence_step [OF st, of fp rest acc] obtain sid tx ats where
    s: "map_of (el_attrib s) ''id'' = Some sid" "el_children s = [tx, ats]"
    and step: "semeval_loop fp (s # rest) acc =
         (case extract_aspect_terms ats sid of
            Inl e \<Rightarrow> Inl e
          | Inr ds \<Rightarrow>
              semeval_loop fp rest
                (acc @ map (entry_target (case el_text tx of None \<Rightarrow> PNone | Some x \<Rightarrow> PStr x)) ds))"
    by blast
  let ?v = "case el_text tx of None \<Rightarrow> PNone | Some x \<Rightarrow> PStr x"
  let ?es = "map (\<lambda>(i, t). aspect_entry sid i t) (enumerate 0 (el_children ats))"
  have st_eq: "sentence_targets s = map (map_option (entry_target ?v)) ?es"
    using s by (auto simp: sentence_targets_def)
  show ?case
  proof (cases "extract_aspect_terms ats sid")
    case (Inl e)
    have "\<not> (\<exists>ds. map Some ds = ?es)"
      using Inl extract_entries [of ats sid] by auto
    then obtain x where x: "x \<in> set ?es" "x = None"
      using map_Some_the [of ?es] by (metis not_None_eq)
    have "\<not> (\<exists>new. res = acc @ new
              \<and> map Some new = concat (map sentence_targets (s # rest)))"
    proof
      assume "\<exists>new. res = acc @ new
              \<and> map Some new = concat (map sentence_targets (s # rest))"
      then obtain new where
        "map Some new = map (map_option (entry_target ?v)) ?es @ concat (map sentence_targets rest)"
        by (auto simp: st_eq)
      then have "set (map (map_option (entry_target ?v)) ?es) \<subseteq> set (map Some new)"
        by (metis set_append Un_upper1)
      moreover from x have "None \<in> set (map (map_option (entry_target ?v)) ?es)"
        by (force simp: image_iff)
      ultimately show False by auto
    qed
    with Inl step show ?thesis by simp
  next
    case (Inr ds)
    then have es: "?es = map Some ds" using extract_entries [of ats sid ds] by simp
    have st2: "sentence_targets s = map Some (map (entry_target ?v) ds)"
      unfolding st_eq es by (simp add: comp_def)
    from Inr step have
      "(semeval_loop fp (s # rest) acc = Inr res) =
         (semeval_loop fp rest (acc @ map (entry_target ?v) ds) = Inr res)"
      by simp
    also have "\<dots> = (\<exists>new. res = (acc @ map (entry_target ?v) ds) @ new
                      \<and> map Some new = concat (map sentence_targets rest))"
      by (rule Cons.IH [OF rs])
    also have "\<dots> = (\<exists>new. res = acc @ new
                      \<and> map Some new = concat (map sentence_targets (s # rest)))"
    proof
      assume "\<exists>new. res = (acc @ map (entry_target ?v) ds) @ new
                      \<and> map Some new = concat (map sentence_targets rest)"
      then obtain new where n: "res = (acc @ map (entry_target ?v) ds) @ new"
        "map Some new = concat (map sentence_targets rest)" by blast
      then have "res = acc @ (map (entry_target ?v) ds @ new)
          \<and> map Some (map (entry_target ?v) ds @ new) = concat (map sentence_targets (s # rest))"
        by (simp add: st2)
      then show "\<exists>new. res = acc @ new
                      \<and> map Some new = concat (map sentence_targets (s # rest))"
        by blast
    next
      assume "\<exists>new. res = acc @ new
                      \<and> map Some new = concat (map sentence_targets (s # rest))"
      then obtain new where n: "res = acc @ new"
        "map Some new = map Some (map (entry_target ?v) ds) @ concat (map sentence_targets rest)"
        by (auto simp: st2)
      from n(2) obtain us vs where uv: "new = us @ vs"
        "map Some us = map Some (map (entry_target ?v) ds)"
        "map Some vs = concat (map sentence_targets rest)"
        unfolding map_Some_append_iff by blast
      from uv(2) have "us = map (entry_target ?v) ds"
        by (metis map_map inj_Some inj_map_eq_map)
      with n(1) uv have "res = (acc @ map (entry_target ?v) ds) @ vs
          \<and> map Some vs = concat (map sentence_targets rest)" by simp
      then show "\<exists>new. res = (acc @ map (entry_target ?v) ds) @ new
                      \<and> map Some new = concat (map sentence_targets rest)"
        by blast
    qed
    finally show ?thesis .
  qed
qed

lemma semeval_standard:
  assumes "el_tag root = ''sentences''" and "list_all standard_sentence (el_children root)"
  shows "(semeval fp root = Inr coll) =
           (map Some coll = concat (map sentence_targets (el_children root)))"
  using assms semeval_loop_standard [OF assms(2), of fp "[]" coll]
  by (simp add: semeval_def)

text \<open>
  C7. Each \<^verbatim>\<open>aspectTerm\<close> gets its sentiment from its \<^verbatim>\<open>polarity\<close> attribute by the
  table conflict: -2, negative: -1, neutral: 0, positive: 1, and by nothing else: the
  lookup in \<^verbatim>\<open>sentiment_mapper\<close> returns the table's value for these four strings and
  raises a KeyError for every other string. \<^verbatim>\<open>extract_aspect_terms\<close> returns exactly when
  every aspect term has its four attributes and a polarity of the table, and then returns
  one entry per aspect term, in order, with the table's value as sentiment; otherwise it
  raises a KeyError, in particular for a polarity outside the table, and \<^verbatim>\<open>semeval\<close>
  fails on the whole file. Every Target that \<^verbatim>\<open>semeval\<close> returns has the term of an
  aspect term of the file as target and the table's value for that aspect term's polarity
  as sentiment. For a file of one sentence with one aspect term of polarity \<open>q\<close>,
  \<^verbatim>\<open>semeval\<close> returns the Target with the table's value of \<open>q\<close>, or raises KeyError.
  For a file whose sentences each have an id, a \<^verbatim>\<open>text\<close> and then one \<^verbatim>\<open>aspectTerms\<close>
  element, \<^verbatim>\<open>semeval\<close> returns exactly when every aspect term of the file has its
  attributes and a polarity of the table, and the collection is then one Target for each
  aspect term of the file, in order, with the table's value for that aspect term's
  polarity.
\<close>

theorem semeval_polarity_table:
  "lookup sentiment_mapper id q =
     (if q = ''conflict'' then Inr (-2) else if q = ''negative'' then Inr (-1)
      else if q = ''neutral'' then Inr 0 else if q = ''positive'' then Inr 1
      else Inl (KeyError q))
   \<and> ((extract_aspect_terms ats sid = Inr ds) =
        (map Some ds = map (\<lambda>(i, t). aspect_entry sid i t) (enumerate 0 (el_children ats))))
   \<and> ((\<forall>a \<in> set (el_children ats). \<exists>p trm frm tto.
             map_of (el_attrib a) ''polarity'' = Some p
           \<and> p \<in> {''conflict'', ''negative'', ''neutral'', ''positive''}
           \<and> map_of (el_attrib a) ''term'' = Some trm
           \<and> map_of (el_attrib a) ''from'' = Some frm
           \<and> map_of (el_attrib a) ''to'' = Some tto)
      \<longrightarrow> (\<exists>ds. extract_aspect_terms ats sid = Inr ds))
   \<and> (extract_aspect_terms ats sid = Inr ds \<longrightarrow>
      length ds = length (el_children ats)
      \<and> (\<forall>i < length ds. \<exists>p.
            map_of (el_attrib (el_children ats ! i)) ''polarity'' = Some p
          \<and> ((p = ''conflict'' \<and> a_sentiment (ds ! i) = -2)
             \<or> (p = ''negative'' \<and> a_sentiment (ds ! i) = -1)
             \<or> (p = ''neutral'' \<and> a_sentiment (ds ! i) = 0)
             \<or> (p = ''positive'' \<and> a_sentiment (ds ! i) = 1))))
   \<and> (t \<in> set (el_children ats) \<and> map_of (el_attrib t) ''polarity'' = Some p
        \<and> p \<notin> {''conflict'', ''negative'', ''neutral'', ''positive''}
      \<longrightarrow> (\<exists>k. extract_aspect_terms ats sid = Inl (KeyError k)))
   \<and> (extract_aspect_terms ats sid = Inl e \<longrightarrow> (\<exists>k. e = KeyError k))
   \<and> (semeval file_path root = Inr coll \<longrightarrow>
        list_all (from_aspect_term (el_children root)) coll
        \<and> list_all sentiment_in_table coll)
   \<and> (s \<in> set (el_children root) \<and> ats \<in> set (el_children s) \<and> el_tag ats = ''aspectTerms''
        \<and> t \<in> set (el_children ats) \<and> map_of (el_attrib t) ''polarity'' = Some p
        \<and> p \<notin> {''conflict'', ''negative'', ''neutral'', ''positive''}
      \<longrightarrow> (\<exists>e. semeval file_path root = Inl e))
   \<and> semeval file_path (example_sentences q) =
       (case polarity_table q of
          None \<Rightarrow> Inl (KeyError q)
        | Some v \<Rightarrow>
            Inr [\<lparr>t_spans = [(PStr ''0'', PStr ''4'')], t_target_id = ''s10'',
                  t_target = ''service'', t_text = PStr ''good food'', t_sentiment = PInt v,
                  t_sentence_id = None\<rparr>])
   \<and> (el_tag root = ''sentences'' \<and> list_all standard_sentence (el_children root) \<longrightarrow>
        (semeval file_path root = Inr coll)
          = (map Some coll = concat (map sentence_targets (el_children root))))"
proof (intro conjI impI)
  show "lookup sentiment_mapper id q =
     (if q = ''conflict'' then Inr (-2) else if q = ''negative'' then Inr (-1)
      else if q = ''neutral'' then Inr 0 else if q = ''positive'' then Inr 1
      else Inl (KeyError q))"
    by (simp add: lookup_def sentiment_mapper_def)
next
  show "(extract_aspect_terms ats sid = Inr ds) =
        (map Some ds = map (\<lambda>(i, t). aspect_entry sid i t) (enumerate 0 (el_children ats)))"
    by (rule extract_entries)
next
  assume "\<forall>a \<in> set (el_children ats). \<exists>p trm frm tto.
             map_of (el_attrib a) ''polarity'' = Some p
           \<and> p \<in> {''conflict'', ''negative'', ''neutral'', ''positive''}
           \<and> map_of (el_attrib a) ''term'' = Some trm
           \<and> map_of (el_attrib a) ''from'' = Some frm
           \<and> map_of (el_attrib a) ''to'' = Some tto"
  then show "\<exists>ds. extract_aspect_terms ats sid = Inr ds" by (rule extract_accepts)
next
  assume ok: "extract_aspect_terms ats sid = Inr ds"
  show "length ds = length (el_children ats)" by (rule extract_ok(1) [OF ok])
  show "\<forall>i < length ds. \<exists>p.
            map_of (el_attrib (el_children ats ! i)) ''polarity'' = Some p
          \<and> ((p = ''conflict'' \<and> a_sentiment (ds ! i) = -2)
             \<or> (p = ''negative'' \<and> a_sentiment (ds ! i) = -1)
             \<or> (p = ''neutral'' \<and> a_sentiment (ds ! i) = 0)
             \<or> (p = ''positive'' \<and> a_sentiment (ds ! i) = 1))"
    using extract_ok(2) [OF ok] by (simp add: sentiment_mapper_table)
next
  assume "t \<in> set (el_children ats) \<and> map_of (el_attrib t) ''polarity'' = Some p
        \<and> p \<notin> {''conflict'', ''negative'', ''neutral'', ''positive''}"
  then show "\<exists>k. extract_aspect_terms ats sid = Inl (KeyError k)"
    using extract_bad_polarity [of t ats p sid] by blast
next
  assume "extract_aspect_terms ats sid = Inl e"
  then show "\<exists>k. e = KeyError k"
    using extract_loop_key_error [of 0 "el_children ats" sid "[]" e]
    by (simp add: extract_aspect_terms_def)
next
  assume "semeval file_path root = Inr coll"
  then have l: "semeval_loop file_path (el_children root) [] = Inr coll"
    by (simp add: semeval_def split: if_splits)
  from semeval_loop_from [OF l subset_refl]
  show "list_all (from_aspect_term (el_children root)) coll" by simp
  from semeval_loop_ok [OF l] show "list_all sentiment_in_table coll" by simp
next
  assume bad: "s \<in> set (el_children root) \<and> ats \<in> set (el_children s) \<and> el_tag ats = ''aspectTerms''
        \<and> t \<in> set (el_children ats) \<and> map_of (el_attrib t) ''polarity'' = Some p
        \<and> p \<notin> {''conflict'', ''negative'', ''neutral'', ''positive''}"
  show "\<exists>e. semeval file_path root = Inl e"
  proof (cases "semeval file_path root")
    case (Inl e)
    then show ?thesis by blast
  next
    case (Inr coll)
    then have "semeval_loop file_path (el_children root) [] = Inr coll"
      by (simp add: semeval_def split: if_splits)
    from semeval_loop_ok [OF this] bad obtain sid' ds' where
      "extract_aspect_terms ats sid' = Inr ds'" by fastforce
    moreover from bad extract_bad_polarity [of t ats p sid'] obtain k where
      "extract_aspect_terms ats sid' = Inl (KeyError k)" by blast
    ultimately show ?thesis by simp
  qed
next
  show "semeval file_path (example_sentences q) =
       (case polarity_table q of
          None \<Rightarrow> Inl (KeyError q)
        | Some v \<Rightarrow>
            Inr [\<lparr>t_spans = [(PStr ''0'', PStr ''4'')], t_target_id = ''s10'',
                  t_target = ''service'', t_text = PStr ''good food'', t_sentiment = PInt v,
                  t_sentence_id = None\<rparr>])"
    by (rule example_sentences_result)
next
  assume "el_tag root = ''sentences'' \<and> list_all standard_sentence (el_children root)"
  then show "(semeval file_path root = Inr coll)
          = (map Some coll = concat (map sentence_targets (el_children root)))"
    using semeval_standard [of root file_path coll] by blast
qed

theorem semeval_polarity_table_witness:
  "extract_aspect_terms (example_aspect_terms ''positive'') ''s1''
     = Inr [\<lparr>a_target_id = ''s10'', a_target = ''service'', a_sentiment = 1,
             a_spans = [(PStr ''0'', PStr ''4'')]\<rparr>]
   \<and> length [\<lparr>a_target_id = ''s10'', a_target = ''service'', a_sentiment = 1,
             a_spans = [(PStr ''0'', PStr ''4'')]\<rparr>]
       = length (el_children (example_aspect_terms ''positive''))
   \<and> (\<exists>ds. extract_aspect_terms (example_aspect_terms ''negative'') ''s1'' = Inr ds)
   \<and> (\<exists>k. extract_aspect_terms (example_aspect_terms ''great'') ''s1'' = Inl (KeyError k))
   \<and> semeval ''f.xml'' (example_sentences ''neutral'')
       = Inr [\<lparr>t_spans = [(PStr ''0'', PStr ''4'')], t_target_id = ''s10'',
               t_target = ''service'', t_text = PStr ''good food'', t_sentiment = PInt 0,
               t_sentence_id = None\<rparr>]
   \<and> list_all (from_aspect_term (el_children (example_sentences ''neutral'')))
        [\<lparr>t_spans = [(PStr ''0'', PStr ''4'')], t_target_id = ''s10'',
               t_target = ''service'', t_text = PStr ''good food'', t_sentiment = PInt 0,
               t_sentence_id = None\<rparr>]
   \<and> (\<exists>e. semeval ''f.xml'' (example_sentences ''great'') = Inl e)
   \<and> el_tag (example_sentences ''neutral'') = ''sentences''
   \<and> list_all standard_sentence (el_children (example_sentences ''neutral''))
   \<and> map Some [\<lparr>t_spans = [(PStr ''0'', PStr ''4'')], t_target_id = ''s10'',
               t_target = ''service'', t_text = PStr ''good food'', t_sentiment = PInt 0,
               t_sentence_id = None\<rparr>]
       = concat (map sentence_targets (el_children (example_sentences ''neutral'')))"
proof -
  let ?d = "\<lparr>a_target_id = ''s10'', a_target = ''service'', a_sentiment = 1,
             a_spans = [(PStr ''0'', PStr ''4'')]\<rparr>"
  let ?t = "Element ''aspectTerm''
          [(''term'', ''service''), (''polarity'', ''great''), (''from'', ''0''), (''to'', ''4'')]
          None []"
  let ?s = "Element ''sentence'' [(''id'', ''s1'')] None
          [Element ''text'' [] (Some ''good food'') [], example_aspect_terms ''great'']"
  let ?T = "\<lparr>t_spans = [(PStr ''0'', PStr ''4'')], t_target_id = ''s10'',
               t_target = ''service'', t_text = PStr ''good food'', t_sentiment = PInt 0,
               t_sentence_id = None\<rparr>"
  have a: "extract_aspect_terms (example_aspect_terms ''positive'') ''s1'' = Inr [?d]"
    by code_simp
  have acc: "\<forall>a \<in> set (el_children (example_aspect_terms ''negative'')). \<exists>p trm frm tto.
             map_of (el_attrib a) ''polarity'' = Some p
           \<and> p \<in> {''conflict'', ''negative'', ''neutral'', ''positive''}
           \<and> map_of (el_attrib a) ''term'' = Some trm
           \<and> map_of (el_attrib a) ''from'' = Some frm
           \<and> map_of (el_attrib a) ''to'' = Some tto"
    by (simp add: example_aspect_terms_def)
  have b: "?t \<in> set (el_children (example_aspect_terms ''great''))"
    "map_of (el_attrib ?t) ''polarity'' = Some ''great''"
    "''great'' \<notin> {''conflict'', ''negative'', ''neutral'', ''positive''}"
    by (simp_all add: example_aspect_terms_def)
  have c: "?s \<in> set (el_children (example_sentences ''great''))"
    "example_aspect_terms ''great'' \<in> set (el_children ?s)"
    "el_tag (example_aspect_terms ''great'') = ''aspectTerms''"
    by (simp_all add: example_sentences_def example_aspect_terms_def)
  have tab: "polarity_table ''neutral'' = Some 0" by code_simp
  have bb: "?t \<in> set (el_children (example_aspect_terms ''great''))
        \<and> map_of (el_attrib ?t) ''polarity'' = Some ''great''
        \<and> ''great'' \<notin> {''conflict'', ''negative'', ''neutral'', ''positive''}"
    using b by (intro conjI)
  have cc: "?s \<in> set (el_children (example_sentences ''great''))
        \<and> example_aspect_terms ''great'' \<in> set (el_children ?s)
        \<and> el_tag (example_aspect_terms ''great'') = ''aspectTerms''
        \<and> ?t \<in> set (el_children (example_aspect_terms ''great''))
        \<and> map_of (el_attrib ?t) ''polarity'' = Some ''great''
        \<and> ''great'' \<notin> {''conflict'', ''negative'', ''neutral'', ''positive''}"
    using b c by (intro conjI)
  have l: "length [?d] = length (el_children (example_aspect_terms ''positive''))"
    by (rule semeval_polarity_table
      [of "''neutral''" "example_aspect_terms ''positive''" "''s1''" "[?d]" ?t "''great''"
        _ "''f.xml''" "example_sentences ''neutral''" "[?T]" ?s,
       THEN conjunct2, THEN conjunct2, THEN conjunct2, THEN conjunct1, THEN mp, OF a, THEN conjunct1])
  have n: "\<exists>ds. extract_aspect_terms (example_aspect_terms ''negative'') ''s1'' = Inr ds"
    by (rule semeval_polarity_table
      [of "''neutral''" "example_aspect_terms ''negative''" "''s1''" "[?d]" ?t "''great''"
        _ "''f.xml''" "example_sentences ''neutral''" "[?T]" ?s,
       THEN conjunct2, THEN conjunct2, THEN conjunct1, THEN mp, OF acc])
  have g: "\<exists>k. extract_aspect_terms (example_aspect_terms ''great'') ''s1'' = Inl (KeyError k)"
    by (rule semeval_polarity_table
      [of "''neutral''" "example_aspect_terms ''great''" "''s1''" "[?d]" ?t "''great''"
        _ "''f.xml''" "example_sentences ''great''" "[?T]" ?s,
       THEN conjunct2, THEN conjunct2, THEN conjunct2, THEN conjunct2, THEN conjunct1, THEN mp, OF bb])
  have d: "semeval ''f.xml'' (example_sentences ''neutral'') = Inr [?T]"
    using semeval_polarity_table
      [of "''neutral''" "example_aspect_terms ''positive''" "''s1''" "[?d]" ?t "''great''"
        _ "''f.xml''" "example_sentences ''neutral''" "[?T]" ?s,
       THEN conjunct2, THEN conjunct2, THEN conjunct2, THEN conjunct2, THEN conjunct2, THEN conjunct2, THEN conjunct2, THEN conjunct2, THEN conjunct1]
    unfolding tab by simp
  have f: "list_all (from_aspect_term (el_children (example_sentences ''neutral''))) [?T]"
    by (rule semeval_polarity_table
      [of "''neutral''" "example_aspect_terms ''positive''" "''s1''" "[?d]" ?t "''great''"
        _ "''f.xml''" "example_sentences ''neutral''" "[?T]" ?s,
       THEN conjunct2, THEN conjunct2, THEN conjunct2, THEN conjunct2, THEN conjunct2, THEN conjunct2, THEN conjunct1, THEN mp, OF d, THEN conjunct1])
  have h: "\<exists>e. semeval ''f.xml'' (example_sentences ''great'') = Inl e"
    by (rule semeval_polarity_table
      [of "''neutral''" "example_aspect_terms ''great''" "''s1''" "[?d]" ?t "''great''"
        _ "''f.xml''" "example_sentences ''great''" "[?T]" ?s,
       THEN conjunct2, THEN conjunct2, THEN conjunct2, THEN conjunct2, THEN conjunct2, THEN conjunct2, THEN conjunct2, THEN conjunct1, THEN mp, OF cc])
  have std: "el_tag (example_sentences ''neutral'') = ''sentences''"
    "list_all standard_sentence (el_children (example_sentences ''neutral''))"
    by code_simp+
  then have std': "el_tag (example_sentences ''neutral'') = ''sentences''
      \<and> list_all standard_sentence (el_children (example_sentences ''neutral''))"
    by (intro conjI)
  have i: "map Some [?T] = concat (map sentence_targets (el_children (example_sentences ''neutral'')))"
    using semeval_polarity_table
      [of "''neutral''" "example_aspect_terms ''positive''" "''s1''" "[?d]" ?t "''great''"
        _ "''f.xml''" "example_sentences ''neutral''" "[?T]" ?s,
       THEN conjunct2, THEN conjunct2, THEN conjunct2, THEN conjunct2, THEN conjunct2, THEN conjunct2, THEN conjunct2, THEN conjunct2, THEN conjunct2, THEN mp, OF std'] d
    by simp
  from a l n g d f h std i show ?thesis by (intro conjI)
qed

section \<open>Fuzzy resolution (C3)\<close>

lemma fuzzy_loop_find:
  "fuzzy_loop fi tx ps =
     (case find (\<lambda>p. search_fails fi tx p \<or> one_match fi tx p) ps of
        None \<Rightarrow> Inr None
      | Some p \<Rightarrow> (case fi p (lower tx) of Inl e \<Rightarrow> Inl e | Inr ms \<Rightarrow> Inr (Some ms)))"
  by (induction ps) (auto simp: search_fails_def one_match_def split: sum.splits)

lemma find_no_fail:
  "\<forall>p \<in> set ps. \<not> search_fails fi tx p \<Longrightarrow>
     find (\<lambda>p. search_fails fi tx p \<or> one_match fi tx p) ps = find (one_match fi tx) ps"
  by (induction ps) auto

text \<open>
  C3, as stated, fails for a target that is not a valid regular expression: the search
  for the first pattern raises the library's error. For the allow-listed record
  81211671026352128 and the target "+1" no pattern yields exactly one match, yet the item
  is not skipped: the error of the pattern propagates.
\<close>

theorem fuzzy_regex_error_counterexample:
  "allow_listed ''81211671026352128'' ''+1''
   \<and> list_all (\<lambda>p. \<not> one_match re_finditer ''vote'' p) (target_searches (lower ''+1''))
   \<and> fuzzy_target_match re_finditer ''81211671026352128'' ''vote'' ''+1'' \<noteq> Inr None
   \<and> fuzzy_target_match re_finditer ''81211671026352128'' ''vote'' ''+1''
        = Inl (ReError ''nothing to repeat at position 0'')"
  by code_simp

text \<open>
  C3, amended. \<^verbatim>\<open>fuzzy_target_match\<close> goes through its six patterns in order and stops at
  the first whose search raises or yields exactly one match: it re-raises the error, or
  returns that one match. When every pattern is searched without error, it returns the
  match of the first pattern with exactly one match; if there is none, it returns None
  exactly when the record id and target are allow-listed, and otherwise raises the
  ValueError that carries the target and the full tweet text.
\<close>

theorem fuzzy_target_match_first_single:
  "fuzzy_target_match fi tweet_id tweet_text target =
     (case find (\<lambda>p. search_fails fi tweet_text p \<or> one_match fi tweet_text p)
             (target_searches (lower target)) of
        Some p \<Rightarrow>
          (case fi p (lower tweet_text) of Inl e \<Rightarrow> Inl e | Inr ms \<Rightarrow> Inr (Some ms))
      | None \<Rightarrow>
          if allow_listed tweet_id target then Inr None
          else Inl (ValueError (''Cannot find the exact additional entity '' @ target
                      @ '' within the tweet '' @ tweet_text)))
   \<and> ((\<forall>p \<in> set (target_searches (lower target)). \<not> search_fails fi tweet_text p) \<longrightarrow>
        fuzzy_target_match fi tweet_id tweet_text target =
          (case find (one_match fi tweet_text) (target_searches (lower target)) of
             Some p \<Rightarrow>
               (case fi p (lower tweet_text) of Inl e \<Rightarrow> Inl e | Inr ms \<Rightarrow> Inr (Some ms))
           | None \<Rightarrow>
               if allow_listed tweet_id target then Inr None
               else Inl (ValueError (''Cannot find the exact additional entity '' @ target
                           @ '' within the tweet '' @ tweet_text))))"
proof -
  have a: "fuzzy_target_match fi tweet_id tweet_text target =
     (case find (\<lambda>p. search_fails fi tweet_text p \<or> one_match fi tweet_text p)
             (target_searches (lower target)) of
        Some p \<Rightarrow>
          (case fi p (lower tweet_text) of Inl e \<Rightarrow> Inl e | Inr ms \<Rightarrow> Inr (Some ms))
      | None \<Rightarrow>
          if allow_listed tweet_id target then Inr None
          else Inl (ValueError (''Cannot find the exact additional entity '' @ target
                      @ '' within the tweet '' @ tweet_text)))"
    unfolding fuzzy_target_match_def fuzzy_loop_find Let_def allow_listed_def
    by (simp split: option.splits sum.splits)
  show ?thesis
  proof (intro conjI impI)
    show "fuzzy_target_match fi tweet_id tweet_text target =
     (case find (\<lambda>p. search_fails fi tweet_text p \<or> one_match fi tweet_text p)
             (target_searches (lower target)) of
        Some p \<Rightarrow>
          (case fi p (lower tweet_text) of Inl e \<Rightarrow> Inl e | Inr ms \<Rightarrow> Inr (Some ms))
      | None \<Rightarrow>
          if allow_listed tweet_id target then Inr None
          else Inl (ValueError (''Cannot find the exact additional entity '' @ target
                      @ '' within the tweet '' @ tweet_text)))"
      by (rule a)
  next
    assume "\<forall>p \<in> set (target_searches (lower target)). \<not> search_fails fi tweet_text p"
    from find_no_fail [OF this] a
    show "fuzzy_target_match fi tweet_id tweet_text target =
          (case find (one_match fi tweet_text) (target_searches (lower target)) of
             Some p \<Rightarrow>
               (case fi p (lower tweet_text) of Inl e \<Rightarrow> Inl e | Inr ms \<Rightarrow> Inr (Some ms))
           | None \<Rightarrow>
               if allow_listed tweet_id target then Inr None
               else Inl (ValueError (''Cannot find the exact additional entity '' @ target
                           @ '' within the tweet '' @ tweet_text)))"
      by simp
  qed
qed


theorem fuzzy_target_match_first_single_witness:
  "list_all (\<lambda>p. \<not> search_fails re_finditer ''Tax is bad, tax'' p) (target_searches (lower ''tax''))
   \<and> fuzzy_target_match re_finditer ''12'' ''Tax is bad, tax'' ''tax'' = Inr (Some [(11, 15)])"
proof -
  have h: "\<forall>p \<in> set (target_searches (lower ''tax'')).
             \<not> search_fails re_finditer ''Tax is bad, tax'' p"
    by code_simp
  have rhs: "(case find (one_match re_finditer ''Tax is bad, tax'') (target_searches (lower ''tax'')) of
             Some p \<Rightarrow>
               (case re_finditer p (lower ''Tax is bad, tax'') of
                  Inl e \<Rightarrow> Inl e | Inr ms \<Rightarrow> Inr (Some ms))
           | None \<Rightarrow>
               if allow_listed ''12'' ''tax'' then Inr None
               else Inl (ValueError (''Cannot find the exact additional entity '' @ ''tax''
                           @ '' within the tweet '' @ ''Tax is bad, tax'')))
          = Inr (Some [(11, 15)])"
    by code_simp
  from fuzzy_target_match_first_single
         [of re_finditer "''12''" "''Tax is bad, tax''" "''tax''", THEN conjunct2, THEN mp, OF h]
  have "fuzzy_target_match re_finditer ''12'' ''Tax is bad, tax'' ''tax'' = Inr (Some [(11, 15)])"
    unfolding rhs .
  with h show ?thesis by (simp add: list_all_iff)
qed

section \<open>Additional items of a tweet without entities (C10)\<close>

lemma additional_loop_no_ids:
  "additional_loop fi tweet_id tx b its [] [] =
     (case find (\<lambda>x. fuzzy_target_match fi tweet_id tx (fst x) \<noteq> Inr None) its of
        None \<Rightarrow> Inr []
      | Some x \<Rightarrow>
          (case fuzzy_target_match fi tweet_id tx (fst x) of
             Inl e \<Rightarrow> Inl e
           | Inr r \<Rightarrow> Inl (ValueError ''max() arg is an empty sequence'')))"
proof (induction its)
  case Nil
  then show ?case by simp
next
  case (Cons x its)
  obtain target sentiment where x: "x = (target, sentiment)" by (cases x)
  show ?case
  proof (cases "fuzzy_target_match fi tweet_id tx target")
    case (Inl e)
    with x show ?thesis by simp
  next
    case (Inr r)
    show ?thesis
    proof (cases r)
      case None
      with Inr x Cons.IH show ?thesis by simp
    next
      case (Some ms)
      with Inr x show ?thesis by simp
    qed
  qed
qed

text \<open>
  C10, as stated, fails when the only additional item is skipped through the allow-list:
  for the record 81211671026352128 with no entities and the additional item "vat", which
  does not occur in the text, \<^verbatim>\<open>parse_tweet\<close> returns the empty list without an error.
\<close>

theorem parse_tweet_no_entities_skipped:
  "entities example_tweet = []
   \<and> additional_items (example_anno ''vat'') = AdditionalDict [(''vat'', ''positive'')]
   \<and> allow_listed ''81211671026352128'' ''vat''
   \<and> parse_tweet re_finditer False True example_tweet (example_anno ''vat'') ''81211671026352128''
        = Inr []"
  by code_simp

text \<open>
  C10, amended. With \<^verbatim>\<open>include_additional\<close> on, no entities and a non-empty dict of
  additional items, \<^verbatim>\<open>parse_tweet\<close> never returns a Target. It fails at the first
  additional item that is not skipped: with the error of \<^verbatim>\<open>fuzzy_target_match\<close> if that
  raises, and otherwise with the ValueError of \<^verbatim>\<open>max\<close> on the empty list of entity ids.
  It returns the empty list only when every additional item is skipped (None).
\<close>

theorem parse_tweet_no_entities:
  "entities tweet = [] \<and> additional_items anno = AdditionalDict its \<and> its \<noteq> [] \<longrightarrow>
     parse_tweet fi include_dnr True tweet anno tweet_id =
       (case find (\<lambda>x. fuzzy_target_match fi tweet_id (content tweet) (fst x) \<noteq> Inr None) its of
          None \<Rightarrow> Inr []
        | Some x \<Rightarrow>
            (case fuzzy_target_match fi tweet_id (content tweet) (fst x) of
               Inl e \<Rightarrow> Inl e
             | Inr r \<Rightarrow> Inl (ValueError ''max() arg is an empty sequence'')))
     \<and> (\<forall>ts. parse_tweet fi include_dnr True tweet anno tweet_id = Inr ts \<longrightarrow> ts = [])
     \<and> ((\<exists>e. parse_tweet fi include_dnr True tweet anno tweet_id = Inl e)
          \<longleftrightarrow> (\<exists>x \<in> set its. fuzzy_target_match fi tweet_id (content tweet) (fst x) \<noteq> Inr None))"
proof (intro impI)
  assume h: "entities tweet = [] \<and> additional_items anno = AdditionalDict its \<and> its \<noteq> []"
  let ?P = "\<lambda>x. fuzzy_target_match fi tweet_id (content tweet) (fst x) \<noteq> Inr None"
  let ?rhs = "case find ?P its of
          None \<Rightarrow> Inr []
        | Some x \<Rightarrow>
            (case fuzzy_target_match fi tweet_id (content tweet) (fst x) of
               Inl e \<Rightarrow> Inl e
             | Inr r \<Rightarrow> Inl (ValueError ''max() arg is an empty sequence''))"
  have eq: "parse_tweet fi include_dnr True tweet anno tweet_id = ?rhs"
    using h by (simp add: parse_tweet_def Let_def additional_loop_no_ids)
  have none: "find ?P its = None \<longleftrightarrow> \<not> (\<exists>x \<in> set its. ?P x)"
    by (auto simp: find_None_iff)
  have empty: "\<forall>ts. ?rhs = Inr ts \<longrightarrow> ts = []"
    by (auto split: option.splits sum.splits)
  have err: "(\<exists>e. ?rhs = Inl e) \<longleftrightarrow> (\<exists>x \<in> set its. ?P x)"
  proof (cases "find ?P its")
    case None
    with none show ?thesis by simp
  next
    case (Some x)
    with none have "\<exists>x \<in> set its. ?P x" by simp
    with Some show ?thesis by (simp split: sum.splits)
  qed
  from eq empty err
  show "parse_tweet fi include_dnr True tweet anno tweet_id = ?rhs
     \<and> (\<forall>ts. parse_tweet fi include_dnr True tweet anno tweet_id = Inr ts \<longrightarrow> ts = [])
     \<and> ((\<exists>e. parse_tweet fi include_dnr True tweet anno tweet_id = Inl e)
          \<longleftrightarrow> (\<exists>x \<in> set its. ?P x))"
    by simp
qed

theorem parse_tweet_no_entities_witness:
  "entities example_tweet = []
   \<and> additional_items (example_anno ''kippers'') = AdditionalDict [(''kippers'', ''positive'')]
   \<and> [(''kippers'', ''positive'')] \<noteq> []
   \<and> parse_tweet re_finditer False True example_tweet (example_anno ''kippers'') ''12''
        = Inl (ValueError ''max() arg is an empty sequence'')"
proof -
  have h: "entities example_tweet = []
      \<and> additional_items (example_anno ''kippers'') = AdditionalDict [(''kippers'', ''positive'')]
      \<and> [(''kippers'', ''positive'')] \<noteq> []"
    by (simp add: example_tweet_def example_anno_def)
  have rhs: "(case find (\<lambda>x. fuzzy_target_match re_finditer ''12'' (content example_tweet) (fst x)
                             \<noteq> Inr None) [(''kippers'', ''positive'')] of
          None \<Rightarrow> Inr []
        | Some x \<Rightarrow>
            (case fuzzy_target_match re_finditer ''12'' (content example_tweet) (fst x) of
               Inl e \<Rightarrow> Inl e
             | Inr r \<Rightarrow> Inl (ValueError ''max() arg is an empty sequence'')))
       = (Inl (ValueError ''max() arg is an empty sequence'') :: error + Target list)"
    by code_simp
  from parse_tweet_no_entities
         [of example_tweet "example_anno ''kippers''" "[(''kippers'', ''positive'')]"
             re_finditer False "''12''", THEN mp, OF h, THEN conjunct1]
  have "parse_tweet re_finditer False True example_tweet (example_anno ''kippers'') ''12''
        = Inl (ValueError ''max() arg is an empty sequence'')"
    unfolding rhs .
  with h show ?thesis by simp
qed

section \<open>The loop of the line-record parser, three lines at a time\<close>

declare dong_loop.simps(2) [simp del]

lemma dong_loop_text:
  "(index + 1) mod 3 = 1 \<Longrightarrow>
     dong_loop fi index (l # rest) sent data
       = dong_loop fi (index + 1) rest (sent\<lparr>sd_text := Some (strip l)\<rparr>) data"
  by (simp add: dong_loop.simps(2) Let_def)

lemma dong_loop_target:
  "(index + 1) mod 3 = 2 \<Longrightarrow>
     dong_loop fi index (l # rest) sent data
       = dong_loop fi (index + 1) rest (sent\<lparr>sd_target := Some (strip l)\<rparr>) data"
  by (simp add: dong_loop.simps(2) Let_def)

lemma dong_loop_sentiment:
  "(index + 1) mod 3 = 0 \<Longrightarrow> sd_text sent = Some a \<Longrightarrow> sd_target sent = Some b \<Longrightarrow>
     dong_loop fi index (l # rest) sent data
       = (case py_int (strip l) of
            None \<Rightarrow> Inl (ValueError (invalid_literal (strip l)))
          | Some sentiment \<Rightarrow>
              if sentiment \<notin> set sentiment_range then
                Inl (ValueError (''The sentiment has to be one of the following values ''
                       @ ''[-1, 0, 1]'' @ '' not '' @ str_int sentiment))
              else
                (case dong_offsets fi a b of
                   Inl e \<Rightarrow> Inl e
                 | Inr offsets \<Rightarrow>
                     dong_loop fi (index + 1) rest empty_sent_dict
                       (data @ [\<lparr>t_spans = map int_span offsets,
                                 t_target_id = str_nat (length data),
                                 t_target = b, t_text = PStr a,
                                 t_sentiment = PInt sentiment, t_sentence_id = None\<rparr>])))"
  by (simp add: dong_loop.simps(2) Let_def add_def split: option.splits sum.splits)

lemma dong_loop_triple:
  assumes "index mod 3 = 0"
  shows "dong_loop fi index (a # b # c # rest) sent data =
     (case dong_record fi (length data) (a, b, c) of
        Inl e \<Rightarrow> Inl e
      | Inr t \<Rightarrow> dong_loop fi (index + 3) rest empty_sent_dict (data @ [t]))"
proof -
  from assms have m: "(index + 1) mod 3 = 1" "(index + 1 + 1) mod 3 = 2"
    "(index + 1 + 1 + 1) mod 3 = 0"
    by presburger+
  let ?sent = "sent\<lparr>sd_text := Some (strip a), sd_target := Some (strip b)\<rparr>"
  have three: "index + 1 + 1 + 1 = index + 3" by simp
  have "dong_loop fi index (a # b # c # rest) sent data
          = dong_loop fi (index + 1) (b # c # rest) (sent\<lparr>sd_text := Some (strip a)\<rparr>) data"
    by (rule dong_loop_text [OF m(1)])
  also have "\<dots> = dong_loop fi (index + 1 + 1) (c # rest) ?sent data"
    by (simp only: dong_loop_target [OF m(2)])
  also have "\<dots> = (case py_int (strip c) of
            None \<Rightarrow> Inl (ValueError (invalid_literal (strip c)))
          | Some sentiment \<Rightarrow>
              if sentiment \<notin> set sentiment_range then
                Inl (ValueError (''The sentiment has to be one of the following values ''
                       @ ''[-1, 0, 1]'' @ '' not '' @ str_int sentiment))
              else
                (case dong_offsets fi (strip a) (strip b) of
                   Inl e \<Rightarrow> Inl e
                 | Inr offsets \<Rightarrow>
                     dong_loop fi (index + 1 + 1 + 1) rest empty_sent_dict
                       (data @ [\<lparr>t_spans = map int_span offsets,
                                 t_target_id = str_nat (length data),
                                 t_target = strip b, t_text = PStr (strip a),
                                 t_sentiment = PInt sentiment, t_sentence_id = None\<rparr>])))"
    by (rule dong_loop_sentiment [OF m(3)]) simp_all
  also have "\<dots> = (case dong_record fi (length data) (a, b, c) of
        Inl e \<Rightarrow> Inl e
      | Inr t \<Rightarrow> dong_loop fi (index + 3) rest empty_sent_dict (data @ [t]))"
    unfolding three
    by (simp add: dong_record_def split: option.splits sum.splits)
  finally show ?thesis .
qed

lemma dong_loop_partial:
  assumes "index mod 3 = 0"
  shows "dong_loop fi index [a] sent data = Inr data"
    and "dong_loop fi index [a, b] sent data = Inr data"
proof -
  from assms have m: "(index + 1) mod 3 = 1" "(index + 1 + 1) mod 3 = 2"
    by presburger+
  show "dong_loop fi index [a] sent data = Inr data"
    by (simp only: dong_loop_text [OF m(1)] dong_loop.simps(1))
  show "dong_loop fi index [a, b] sent data = Inr data"
    by (simp only: dong_loop_text [OF m(1)] dong_loop_target [OF m(2)] dong_loop.simps(1))
qed

lemma dong_loop_records:
  "index mod 3 = 0 \<Longrightarrow>
     dong_loop fi index file_lines sent data
       = map_sum id (\<lambda>ts. data @ ts) (dong_records fi (length data) (chunk3 file_lines))"
proof (induction file_lines arbitrary: index sent data rule: chunk3.induct)
  case (1 a b c rest)
  from "1.prems" have m3: "(index + 3) mod 3 = 0" by presburger
  show ?case
  proof (cases "dong_record fi (length data) (a, b, c)")
    case (Inl e)
    with "1.prems" show ?thesis by (simp add: dong_loop_triple)
  next
    case (Inr t)
    have "dong_loop fi index (a # b # c # rest) sent data
            = dong_loop fi (index + 3) rest empty_sent_dict (data @ [t])"
      using "1.prems" Inr by (simp add: dong_loop_triple)
    also have "\<dots> = map_sum id (\<lambda>ts. (data @ [t]) @ ts)
                       (dong_records fi (length (data @ [t])) (chunk3 rest))"
      by (rule "1.IH" [OF m3])
    also have "\<dots> = map_sum id (\<lambda>ts. data @ ts)
                       (dong_records fi (length data) (chunk3 (a # b # c # rest)))"
      using Inr by (cases "dong_records fi (Suc (length data)) (chunk3 rest)") simp_all
    finally show ?thesis .
  qed
qed (simp_all add: dong_loop_partial)

lemma dong_records_eq: "dong fi file_lines = dong_records fi 0 (chunk3 file_lines)"
proof -
  have "dong fi file_lines
          = map_sum id (\<lambda>ts. [] @ ts) (dong_records fi (length ([] :: Target list)) (chunk3 file_lines))"
    unfolding dong_def by (rule dong_loop_records) simp
  then show ?thesis
    by (cases "dong_records fi 0 (chunk3 file_lines)") simp_all
qed

lemma chunk3_take: "chunk3 (take (3 * (length xs div 3)) xs) = chunk3 xs"
proof (induction xs rule: chunk3.induct)
  case (1 a b c rest)
  have "3 * (length (a # b # c # rest) div 3) = Suc (Suc (Suc (3 * (length rest div 3))))"
    by simp presburger
  then have "take (3 * (length (a # b # c # rest) div 3)) (a # b # c # rest)
               = a # b # c # take (3 * (length rest div 3)) rest"
    by (simp only: take_Suc_Cons)
  with 1 show ?case by simp
qed simp_all

lemma chunk3_length: "length (chunk3 xs) = length xs div 3"
  by (induction xs rule: chunk3.induct) simp_all

lemma chunk3_nth:
  "i < length (chunk3 xs) \<Longrightarrow> chunk3 xs ! i = (xs ! (3 * i), xs ! (3 * i + 1), xs ! (3 * i + 2))"
proof (induction xs arbitrary: i rule: chunk3.induct)
  case (1 a b c rest)
  show ?case
  proof (cases i)
    case 0
    then show ?thesis by simp
  next
    case (Suc j)
    with "1.prems" have "j < length (chunk3 rest)" by simp
    from "1.IH" [OF this] Suc show ?thesis by simp
  qed
qed simp_all

lemma dong_records_length:
  "dong_records fi k rs = Inr col \<Longrightarrow>
     length col = length rs \<and> (\<forall>i < length rs. dong_record fi (k + i) (rs ! i) = Inr (col ! i))"
proof (induction rs arbitrary: k col)
  case Nil
  then show ?case by simp
next
  case (Cons r rs)
  from Cons.prems obtain t col' where
    t: "dong_record fi k r = Inr t" and rec: "dong_records fi (k + 1) rs = Inr col'"
    and col: "col = t # col'"
    by (auto split: sum.splits simp: map_sum_def)
  from Cons.IH [OF rec] have len: "length col' = length rs"
    and nth: "\<forall>i < length rs. dong_record fi (k + 1 + i) (rs ! i) = Inr (col' ! i)"
    by simp_all
  have "\<forall>i < length (r # rs). dong_record fi (k + i) ((r # rs) ! i) = Inr (col ! i)"
  proof (intro allI impI)
    fix i assume "i < length (r # rs)"
    then show "dong_record fi (k + i) ((r # rs) ! i) = Inr (col ! i)"
      using t nth col by (cases i) simp_all
  qed
  with len col show ?case by simp
qed

lemma dong_records_succeed:
  "(\<forall>i < length rs. \<exists>t. dong_record fi (k + i) (rs ! i) = Inr t) \<Longrightarrow>
     \<exists>col. dong_records fi k rs = Inr col"
proof (induction rs arbitrary: k)
  case Nil
  then show ?case by simp
next
  case (Cons r rs)
  from Cons.prems [rule_format, of 0] obtain t where t: "dong_record fi k r = Inr t" by auto
  have "\<forall>i < length rs. \<exists>t. dong_record fi (k + 1 + i) (rs ! i) = Inr t"
  proof (intro allI impI)
    fix i assume "i < length rs"
    with Cons.prems [rule_format, of "Suc i"] show "\<exists>t. dong_record fi (k + 1 + i) (rs ! i) = Inr t"
      by simp
  qed
  from Cons.IH [OF this] obtain col where "dong_records fi (k + 1) rs = Inr col" by blast
  with t show ?case by simp
qed

section \<open>Files whose line count is not a multiple of three (C4)\<close>

text \<open>
  C4, as stated, fails: no line of \<^verbatim>\<open>dong\<close> looks at the number of lines, and the branch
  that raises \<^verbatim>\<open>Exception('Problem')\<close> cannot be reached, since a remainder modulo 3 is
  1, 2 or 0. A file of four lines gives the Target of its first three lines, and a file of
  two lines gives the empty collection, both without an error.
\<close>

theorem dong_partial_record_no_error:
  "length [''The Cat sat'', ''cat'', ''1'', ''A dangling line''] mod 3 \<noteq> 0
   \<and> dong re_finditer [''The Cat sat'', ''cat'', ''1'', ''A dangling line'']
       = Inr [\<lparr>t_spans = [(PInt 4, PInt 7)], t_target_id = ''0'', t_target = ''cat'',
               t_text = PStr ''The Cat sat'', t_sentiment = PInt 1, t_sentence_id = None\<rparr>]
   \<and> length [''The Cat sat'', ''cat''] mod 3 \<noteq> 0
   \<and> dong re_finditer [''The Cat sat'', ''cat''] = Inr []"
  by code_simp

lemma dong_offsets_error:
  "dong_offsets fi tx tgt = Inl e \<Longrightarrow> \<exists>p t. fi p t = Inl e"
  by (auto simp: dong_offsets_def Let_def split: sum.splits if_splits)

lemma dong_record_error:
  "dong_record fi k r = Inl e \<Longrightarrow> (\<exists>msg. e = ValueError msg) \<or> (\<exists>p t. fi p t = Inl e)"
  by (cases r) (auto simp: dong_record_def split: option.splits if_splits sum.splits
                   dest: dong_offsets_error)

lemma dong_records_error:
  "dong_records fi k rs = Inl e \<Longrightarrow> (\<exists>msg. e = ValueError msg) \<or> (\<exists>p t. fi p t = Inl e)"
proof (induction rs arbitrary: k)
  case Nil
  then show ?case by simp
next
  case (Cons r rs)
  show ?case
  proof (cases "dong_record fi k r")
    case (Inl e')
    with Cons.prems have "e' = e" by simp
    with Inl dong_record_error [of fi k r e] show ?thesis by simp
  next
    case (Inr t)
    with Cons.prems have "dong_records fi (k + 1) rs = Inl e"
      by (cases "dong_records fi (k + 1) rs") simp_all
    then show ?thesis by (rule Cons.IH)
  qed
qed

text \<open>
  C4, amended. A trailing group of one or two lines is dropped silently: \<^verbatim>\<open>dong\<close> gives
  for the file what it gives for the file cut after its last complete group of three
  lines (the same collection, or the same error of one of the complete groups). A
  collection it returns holds one Target per complete group, and a file of fewer than
  three lines gives the empty collection. The only errors are the ValueError of a third
  line that is not an integer among -1, 0, 1 and an error raised by the regular
  expression search; \<^verbatim>\<open>Exception('Problem')\<close> is never raised.
\<close>

theorem dong_drops_partial_record:
  "dong fi file_lines = dong fi (take (3 * (length file_lines div 3)) file_lines)
   \<and> (\<forall>coll. dong fi file_lines = Inr coll \<longrightarrow> length coll = length file_lines div 3)
   \<and> (length file_lines < 3 \<longrightarrow> dong fi file_lines = Inr [])
   \<and> (\<forall>e. dong fi file_lines = Inl e \<longrightarrow>
          (\<exists>msg. e = ValueError msg) \<or> (\<exists>p t. fi p t = Inl e))"
proof (intro conjI allI impI)
  show "dong fi file_lines = dong fi (take (3 * (length file_lines div 3)) file_lines)"
    by (simp only: dong_records_eq chunk3_take)
next
  fix coll
  assume "dong fi file_lines = Inr coll"
  then have "dong_records fi 0 (chunk3 file_lines) = Inr coll"
    by (simp only: dong_records_eq)
  from dong_records_length [OF this] show "length coll = length file_lines div 3"
    by (simp add: chunk3_length)
next
  assume "length file_lines < 3"
  then have "length (chunk3 file_lines) = 0" by (simp add: chunk3_length)
  then have "chunk3 file_lines = []" by simp
  then show "dong fi file_lines = Inr []" by (simp add: dong_records_eq)
next
  fix e
  assume "dong fi file_lines = Inl e"
  then have "dong_records fi 0 (chunk3 file_lines) = Inl e" by (simp only: dong_records_eq)
  then show "(\<exists>msg. e = ValueError msg) \<or> (\<exists>p t. fi p t = Inl e)"
    by (rule dong_records_error)
qed

theorem dong_drops_partial_record_witness:
  "dong re_finditer [''The Cat sat'', ''cat'', ''1'', ''A dangling line'']
     = dong re_finditer [''The Cat sat'', ''cat'', ''1'']
   \<and> length [''The Cat sat'', ''cat''] < (3::nat)
   \<and> dong re_finditer [''The Cat sat'', ''cat''] = Inr []
   \<and> (\<exists>coll. dong re_finditer [''The Cat sat'', ''cat'', ''1'', ''A dangling line''] = Inr coll
          \<and> length coll = length [''The Cat sat'', ''cat'', ''1'', ''A dangling line''] div 3)
   \<and> (\<exists>msg. dong re_finditer [''The Cat sat'', ''cat'', ''7'', ''A dangling line'']
          = Inl (ValueError msg))"
proof -
  let ?four = "[''The Cat sat'', ''cat'', ''1'', ''A dangling line'']"
  let ?bad = "[''The Cat sat'', ''cat'', ''7'', ''A dangling line'']"
  have t: "take (3 * (length ?four div 3)) ?four = [''The Cat sat'', ''cat'', ''1'']"
    by simp
  have l: "length [''The Cat sat'', ''cat''] < (3::nat)" by simp
  from dong_drops_partial_record [of re_finditer ?four, THEN conjunct1]
  have a: "dong re_finditer ?four = dong re_finditer [''The Cat sat'', ''cat'', ''1'']"
    unfolding t .
  from dong_drops_partial_record
         [of re_finditer "[''The Cat sat'', ''cat'']", THEN conjunct2, THEN conjunct2,
          THEN conjunct1, THEN mp, OF l]
  have b: "dong re_finditer [''The Cat sat'', ''cat''] = Inr []" .
  have ok: "dong re_finditer ?four
              = Inr [\<lparr>t_spans = [(PInt 4, PInt 7)], t_target_id = ''0'', t_target = ''cat'',
                      t_text = PStr ''The Cat sat'', t_sentiment = PInt 1,
                      t_sentence_id = None\<rparr>]"
    by code_simp
  from dong_drops_partial_record
         [of re_finditer ?four, THEN conjunct2, THEN conjunct1, THEN spec, THEN mp, OF ok]
  have c: "\<exists>coll. dong re_finditer ?four = Inr coll \<and> length coll = length ?four div 3"
    using ok by blast
  have err: "dong re_finditer ?bad
               = Inl (ValueError ''The sentiment has to be one of the following values [-1, 0, 1] not 7'')"
    by code_simp
  then have d: "\<exists>msg. dong re_finditer ?bad = Inl (ValueError msg)" by blast
  from a l b c d show ?thesis by blast
qed

section \<open>Targets of a well-formed file (C5)\<close>

lemma dong_offsets_returns:
  "(\<exists>offsets. dong_offsets fi tx tg = Inr offsets) = target_searches_return fi tx tg"
  by (auto simp: dong_offsets_def target_searches_return_def search_fails_def Let_def
      split: sum.splits)

text \<open>
  C5, as stated, fails. The file of the three lines "a +1", "+1", "1" has exactly
  \<open>3 * 1\<close> lines and its sentiment is 1, but its target is not a regular expression: the
  search raises, and \<^verbatim>\<open>dong\<close> returns no collection.
\<close>

theorem dong_regex_target_raises:
  "length [''a +1'', ''+1'', ''1''] = 3 * 1
   \<and> py_int (strip ([''a +1'', ''+1'', ''1''] ! (3 * 0 + 2))) = Some 1
   \<and> (1::int) \<in> set sentiment_range
   \<and> dong re_finditer [''a +1'', ''+1'', ''1'']
       = Inl (ReError ''nothing to repeat at position 0'')"
  by code_simp

text \<open>
  C5, amended. For a file of exactly \<open>3 * n\<close> lines in which every third line is an
  integer among -1, 0, 1, \<^verbatim>\<open>dong\<close> returns a collection exactly when no search for a
  target raises (the search for the lower-cased target in the lower-cased text and, for a
  target of several words, the search for the joined words). The collection then has
  exactly \<open>n\<close> Targets in file order: the Target at position \<open>i\<close> has the target id
  \<open>str(i)\<close>, the stripped text, target and sentiment of the lines \<open>3i\<close>, \<open>3i + 1\<close>,
  \<open>3i + 2\<close>, and the spans computed for that text and target.
\<close>

theorem dong_targets_in_file_order:
  assumes len: "length file_lines = 3 * n"
    and sent: "\<forall>i < n. \<exists>s. py_int (strip (file_lines ! (3 * i + 2))) = Some s \<and> s \<in> {-1, 0, 1}"
  shows "((\<exists>coll. dong fi file_lines = Inr coll)
           = (\<forall>i < n. target_searches_return fi (strip (file_lines ! (3 * i)))
                         (strip (file_lines ! (3 * i + 1)))))
       \<and> (\<forall>coll. dong fi file_lines = Inr coll \<longrightarrow>
           length coll = n
           \<and> (\<forall>i < n. t_target_id (coll ! i) = str_nat i
                 \<and> t_text (coll ! i) = PStr (strip (file_lines ! (3 * i)))
                 \<and> t_target (coll ! i) = strip (file_lines ! (3 * i + 1))
                 \<and> Some (t_sentiment (coll ! i))
                     = map_option PInt (py_int (strip (file_lines ! (3 * i + 2))))
                 \<and> Inr (t_spans (coll ! i))
                     = map_sum id (map int_span)
                         (dong_offsets fi (strip (file_lines ! (3 * i)))
                            (strip (file_lines ! (3 * i + 1))))))"
proof -
  let ?rs = "chunk3 file_lines"
  have n: "length ?rs = n" using len by (simp add: chunk3_length)
  have rec: "dong_record fi i (?rs ! i) =
               map_sum id (\<lambda>offsets. \<lparr>t_spans = map int_span offsets, t_target_id = str_nat i,
                    t_target = strip (file_lines ! (3 * i + 1)),
                    t_text = PStr (strip (file_lines ! (3 * i))),
                    t_sentiment = PInt s, t_sentence_id = None\<rparr>)
                 (dong_offsets fi (strip (file_lines ! (3 * i))) (strip (file_lines ! (3 * i + 1))))"
    if "i < n" and "py_int (strip (file_lines ! (3 * i + 2))) = Some s" and "s \<in> {-1, 0, 1}"
    for i s
    using that n chunk3_nth [of i file_lines]
    by (auto simp: dong_record_def sentiment_range_def split: sum.splits)
  have fields: "length coll = n
           \<and> (\<forall>i < n. t_target_id (coll ! i) = str_nat i
                 \<and> t_text (coll ! i) = PStr (strip (file_lines ! (3 * i)))
                 \<and> t_target (coll ! i) = strip (file_lines ! (3 * i + 1))
                 \<and> Some (t_sentiment (coll ! i))
                     = map_option PInt (py_int (strip (file_lines ! (3 * i + 2))))
                 \<and> Inr (t_spans (coll ! i))
                     = map_sum id (map int_span)
                         (dong_offsets fi (strip (file_lines ! (3 * i)))
                            (strip (file_lines ! (3 * i + 1)))))"
    and returns: "\<forall>i < n. target_searches_return fi (strip (file_lines ! (3 * i)))
                         (strip (file_lines ! (3 * i + 1)))"
    if d: "dong fi file_lines = Inr coll" for coll
  proof -
    from d have coll: "dong_records fi 0 ?rs = Inr coll" by (simp add: dong_records_eq)
    from dong_records_length [OF coll] n have
      lc: "length coll = n" and nth: "\<forall>i < n. dong_record fi i (?rs ! i) = Inr (coll ! i)"
      by simp_all
    have each: "\<exists>s offsets. py_int (strip (file_lines ! (3 * i + 2))) = Some s
          \<and> dong_offsets fi (strip (file_lines ! (3 * i))) (strip (file_lines ! (3 * i + 1)))
              = Inr offsets
          \<and> coll ! i = \<lparr>t_spans = map int_span offsets, t_target_id = str_nat i,
                    t_target = strip (file_lines ! (3 * i + 1)),
                    t_text = PStr (strip (file_lines ! (3 * i))),
                    t_sentiment = PInt s, t_sentence_id = None\<rparr>"
      if i: "i < n" for i
    proof -
      from sent i obtain s where
        s: "py_int (strip (file_lines ! (3 * i + 2))) = Some s" "s \<in> {-1, 0, 1}"
        by blast
      from rec [OF i s] nth i show ?thesis
        using s(1)
        by (cases "dong_offsets fi (strip (file_lines ! (3 * i))) (strip (file_lines ! (3 * i + 1)))")
           simp_all
    qed
    show "\<forall>i < n. target_searches_return fi (strip (file_lines ! (3 * i)))
                         (strip (file_lines ! (3 * i + 1)))"
    proof (intro allI impI)
      fix i assume "i < n"
      from each [OF this] have
        "\<exists>offsets. dong_offsets fi (strip (file_lines ! (3 * i))) (strip (file_lines ! (3 * i + 1)))
              = Inr offsets" by blast
      then show "target_searches_return fi (strip (file_lines ! (3 * i)))
                         (strip (file_lines ! (3 * i + 1)))"
        by (simp only: dong_offsets_returns)
    qed
    have "\<forall>i < n. t_target_id (coll ! i) = str_nat i
                 \<and> t_text (coll ! i) = PStr (strip (file_lines ! (3 * i)))
                 \<and> t_target (coll ! i) = strip (file_lines ! (3 * i + 1))
                 \<and> Some (t_sentiment (coll ! i))
                     = map_option PInt (py_int (strip (file_lines ! (3 * i + 2))))
                 \<and> Inr (t_spans (coll ! i))
                     = map_sum id (map int_span)
                         (dong_offsets fi (strip (file_lines ! (3 * i)))
                            (strip (file_lines ! (3 * i + 1))))"
    proof (intro allI impI)
      fix i assume "i < n"
      from each [OF this] obtain s offsets where
        "py_int (strip (file_lines ! (3 * i + 2))) = Some s"
        "dong_offsets fi (strip (file_lines ! (3 * i))) (strip (file_lines ! (3 * i + 1)))
              = Inr offsets"
        "coll ! i = \<lparr>t_spans = map int_span offsets, t_target_id = str_nat i,
                    t_target = strip (file_lines ! (3 * i + 1)),
                    t_text = PStr (strip (file_lines ! (3 * i))),
                    t_sentiment = PInt s, t_sentence_id = None\<rparr>"
        by blast
      then show "t_target_id (coll ! i) = str_nat i
                 \<and> t_text (coll ! i) = PStr (strip (file_lines ! (3 * i)))
                 \<and> t_target (coll ! i) = strip (file_lines ! (3 * i + 1))
                 \<and> Some (t_sentiment (coll ! i))
                     = map_option PInt (py_int (strip (file_lines ! (3 * i + 2))))
                 \<and> Inr (t_spans (coll ! i))
                     = map_sum id (map int_span)
                         (dong_offsets fi (strip (file_lines ! (3 * i)))
                            (strip (file_lines ! (3 * i + 1))))"
        by simp
    qed
    with lc show "length coll = n
           \<and> (\<forall>i < n. t_target_id (coll ! i) = str_nat i
                 \<and> t_text (coll ! i) = PStr (strip (file_lines ! (3 * i)))
                 \<and> t_target (coll ! i) = strip (file_lines ! (3 * i + 1))
                 \<and> Some (t_sentiment (coll ! i))
                     = map_option PInt (py_int (strip (file_lines ! (3 * i + 2))))
                 \<and> Inr (t_spans (coll ! i))
                     = map_sum id (map int_span)
                         (dong_offsets fi (strip (file_lines ! (3 * i)))
                            (strip (file_lines ! (3 * i + 1)))))"
      by blast
  qed
  have succeeds: "\<exists>coll. dong fi file_lines = Inr coll"
    if offs: "\<forall>i < n. target_searches_return fi (strip (file_lines ! (3 * i)))
                         (strip (file_lines ! (3 * i + 1)))"
  proof -
    have "\<forall>i < length ?rs. \<exists>t. dong_record fi (0 + i) (?rs ! i) = Inr t"
    proof (intro allI impI)
      fix i assume "i < length ?rs"
      with n have i: "i < n" by simp
      from sent i obtain s where
        s: "py_int (strip (file_lines ! (3 * i + 2))) = Some s" "s \<in> {-1, 0, 1}"
        by blast
      from offs i have "target_searches_return fi (strip (file_lines ! (3 * i)))
                         (strip (file_lines ! (3 * i + 1)))" by blast
      then obtain offsets where
        "dong_offsets fi (strip (file_lines ! (3 * i))) (strip (file_lines ! (3 * i + 1)))
           = Inr offsets"
        unfolding dong_offsets_returns [symmetric] by blast
      with rec [OF i s] show "\<exists>t. dong_record fi (0 + i) (?rs ! i) = Inr t" by simp
    qed
    from dong_records_succeed [OF this] show ?thesis by (simp add: dong_records_eq)
  qed
  show ?thesis
  proof (intro conjI allI impI)
    show "(\<exists>coll. dong fi file_lines = Inr coll)
           = (\<forall>i < n. target_searches_return fi (strip (file_lines ! (3 * i)))
                         (strip (file_lines ! (3 * i + 1))))"
      using returns succeeds by blast
  next
    fix coll assume "dong fi file_lines = Inr coll"
    from fields [OF this] show "length coll = n" by blast
  next
    fix coll i assume d: "dong fi file_lines = Inr coll" and i: "i < n"
    from fields [OF d] i show "t_target_id (coll ! i) = str_nat i" by blast
    from fields [OF d] i show "t_text (coll ! i) = PStr (strip (file_lines ! (3 * i)))" by blast
    from fields [OF d] i show "t_target (coll ! i) = strip (file_lines ! (3 * i + 1))" by blast
    from fields [OF d] i show "Some (t_sentiment (coll ! i))
                     = map_option PInt (py_int (strip (file_lines ! (3 * i + 2))))" by blast
    from fields [OF d] i show "Inr (t_spans (coll ! i))
                     = map_sum id (map int_span)
                         (dong_offsets fi (strip (file_lines ! (3 * i)))
                            (strip (file_lines ! (3 * i + 1))))" by blast
  qed
qed

theorem dong_targets_in_file_order_witness:
  "length example_dong_file = 3 * 2
   \<and> py_int (strip (example_dong_file ! (3 * 0 + 2))) = Some 1
   \<and> py_int (strip (example_dong_file ! (3 * 1 + 2))) = Some (- 1)
   \<and> target_searches_return re_finditer (strip (example_dong_file ! (3 * 0)))
       (strip (example_dong_file ! (3 * 0 + 1)))
   \<and> target_searches_return re_finditer (strip (example_dong_file ! (3 * 1)))
       (strip (example_dong_file ! (3 * 1 + 1)))
   \<and> (\<exists>coll. dong re_finditer example_dong_file = Inr coll \<and> length coll = 2
         \<and> t_target_id (coll ! 0) = ''0'' \<and> t_target_id (coll ! 1) = ''1''
         \<and> t_text (coll ! 1) = PStr ''I love New York'')"
proof -
  have len: "length example_dong_file = 3 * 2" by (simp add: example_dong_file_def)
  have s0: "py_int (strip (example_dong_file ! (3 * 0 + 2))) = Some 1" by code_simp
  have s1: "py_int (strip (example_dong_file ! (3 * 1 + 2))) = Some (- 1)" by code_simp
  have m: "(1::int) \<in> {-1, 0, 1}" "(- 1::int) \<in> {-1, 0, 1}" by simp_all
  have o0: "target_searches_return re_finditer (strip (example_dong_file ! (3 * 0)))
              (strip (example_dong_file ! (3 * 0 + 1)))"
    by code_simp
  have o1: "target_searches_return re_finditer (strip (example_dong_file ! (3 * 1)))
              (strip (example_dong_file ! (3 * 1 + 1)))"
    by code_simp
  have t1: "strip (example_dong_file ! (3 * 1)) = ''I love New York''" by code_simp
  have ids: "str_nat 0 = ''0''" "str_nat 1 = ''1''" by code_simp+
  have two: "i = 0 \<or> i = 1" if "i < 2" for i :: nat using that by linarith
  have sent: "\<forall>i < 2. \<exists>s. py_int (strip (example_dong_file ! (3 * i + 2))) = Some s \<and> s \<in> {-1, 0, 1}"
  proof (intro allI impI)
    fix i :: nat assume "i < 2"
    from two [OF this] show "\<exists>s. py_int (strip (example_dong_file ! (3 * i + 2))) = Some s \<and> s \<in> {-1, 0, 1}"
    proof
      assume "i = 0"
      show ?thesis unfolding \<open>i = 0\<close> using s0 m(1) by blast
    next
      assume "i = 1"
      show ?thesis unfolding \<open>i = 1\<close> using s1 m(2) by blast
    qed
  qed
  have offs: "\<forall>i < 2. target_searches_return re_finditer (strip (example_dong_file ! (3 * i)))
                   (strip (example_dong_file ! (3 * i + 1)))"
  proof (intro allI impI)
    fix i :: nat assume "i < 2"
    from two [OF this] show "target_searches_return re_finditer (strip (example_dong_file ! (3 * i)))
                   (strip (example_dong_file ! (3 * i + 1)))"
    proof
      assume "i = 0"
      show ?thesis unfolding \<open>i = 0\<close> by (rule o0)
    next
      assume "i = 1"
      show ?thesis unfolding \<open>i = 1\<close> by (rule o1)
    qed
  qed
  note inst = dong_targets_in_file_order [OF len sent, of re_finditer]
  from inst [THEN conjunct1] offs obtain coll where
    c: "dong re_finditer example_dong_file = Inr coll" by blast
  from inst [THEN conjunct2, THEN spec, THEN mp, OF c] have
    lc: "length coll = 2"
    and all: "\<forall>i < 2. t_target_id (coll ! i) = str_nat i
                 \<and> t_text (coll ! i) = PStr (strip (example_dong_file ! (3 * i)))"
    by blast+
  have "(0::nat) < 2" "(1::nat) < 2" by simp_all
  with all have "t_target_id (coll ! 0) = str_nat 0" "t_target_id (coll ! 1) = str_nat 1"
    "t_text (coll ! 1) = PStr (strip (example_dong_file ! (3 * 1)))"
    by blast+
  then have "t_target_id (coll ! 0) = ''0''" "t_target_id (coll ! 1) = ''1''"
    "t_text (coll ! 1) = PStr ''I love New York''"
    unfolding ids t1 by simp_all
  with c lc have "\<exists>coll. dong re_finditer example_dong_file = Inr coll \<and> length coll = 2
         \<and> t_target_id (coll ! 0) = ''0'' \<and> t_target_id (coll ! 1) = ''1''
         \<and> t_text (coll ! 1) = PStr ''I love New York''" by blast
  with len s0 s1 o0 o1 show ?thesis by (intro conjI)
qed

section \<open>The search finds the occurrences from left to right\<close>

lemma scan_cases:
  "scan ats pos tx =
     (if match_here ats tx then
        (pos, pos + length ats) #
          (if ats = [] then (if tx = [] then [] else scan ats (Suc pos) (tl tx))
           else scan ats (pos + length ats) (drop (length ats) tx))
      else if tx = [] then [] else scan ats (Suc pos) (tl tx))"
  by (subst scan.simps) simp

lemma scan_sound:
  "(s, e) \<in> set (scan ats pos tx) \<Longrightarrow>
     pos \<le> s \<and> e = s + length ats \<and> s - pos \<le> length tx \<and> match_here ats (drop (s - pos) tx)"
proof (induction ats pos tx rule: scan.induct)
  case (1 ats pos tx)
  note mem = \<open>(s, e) \<in> set (scan ats pos tx)\<close> [unfolded scan_cases [of ats pos tx]]
  have tl_step: ?case
    if "tx \<noteq> []" and r: "(s, e) \<in> set (scan ats (pos + 1) (tl tx))"
      and ih: "(s, e) \<in> set (scan ats (pos + 1) (tl tx)) \<Longrightarrow>
             pos + 1 \<le> s \<and> e = s + length ats \<and> s - (pos + 1) \<le> length (tl tx)
             \<and> match_here ats (drop (s - (pos + 1)) (tl tx))"
  proof -
    from ih [OF r] have a: "pos + 1 \<le> s" "e = s + length ats" "s - (pos + 1) \<le> length (tl tx)"
      "match_here ats (drop (s - (pos + 1)) (tl tx))" by simp_all
    from a(1) have sp: "s - pos = Suc (s - (pos + 1))" by simp
    from a(3) \<open>tx \<noteq> []\<close> have "s - pos \<le> length tx" unfolding sp by (cases tx) simp_all
    moreover have "match_here ats (drop (s - pos) tx)"
      unfolding sp drop_Suc using a(4) .
    ultimately show ?thesis using a(1,2) by simp
  qed
  show ?case
  proof (cases "match_here ats tx")
    case True
    show ?thesis
    proof (cases "(s, e) = (pos, pos + length ats)")
      case True
      with \<open>match_here ats tx\<close> show ?thesis by simp
    next
      case False
      show ?thesis
      proof (cases "ats = []")
        case True
        with mem \<open>match_here ats tx\<close> False have ne: "tx \<noteq> []"
          and r: "(s, e) \<in> set (scan ats (pos + 1) (tl tx))"
          by (auto split: if_splits)
        from tl_step [OF ne r "1.IH"(1) [OF \<open>match_here ats tx\<close> True ne]] show ?thesis .
      next
        case ne: False
        with mem \<open>match_here ats tx\<close> False have
          r: "(s, e) \<in> set (scan ats (pos + length ats) (drop (length ats) tx))"
          by (auto split: if_splits)
        from "1.IH"(2) [OF \<open>match_here ats tx\<close> ne r] have
          a: "pos + length ats \<le> s" "e = s + length ats"
            "s - (pos + length ats) \<le> length (drop (length ats) tx)"
            "match_here ats (drop (s - (pos + length ats)) (drop (length ats) tx))"
          by blast+
        from match_here_length [OF \<open>match_here ats tx\<close>] have l: "length ats \<le> length tx" .
        from a(1) have sp: "s - (pos + length ats) + length ats = s - pos" by arith
        have "drop (s - (pos + length ats)) (drop (length ats) tx) = drop (s - pos) tx"
          by (simp only: drop_drop sp)
        with a(4) have "match_here ats (drop (s - pos) tx)" by simp
        moreover from a(3) a(1) l have "s - pos \<le> length tx" by simp
        ultimately show ?thesis using a(1,2) by simp
      qed
    qed
  next
    case False
    with mem have ne: "tx \<noteq> []" and r: "(s, e) \<in> set (scan ats (pos + 1) (tl tx))"
      by (auto split: if_splits)
    from tl_step [OF ne r "1.IH"(3) [OF False ne]] show ?thesis .
  qed
qed

lemma scan_sorted:
  "sorted_wrt (\<lambda>a b. snd a \<le> fst b \<and> fst a < fst b) (scan ats pos tx)"
proof (induction ats pos tx rule: scan.induct)
  case (1 ats pos tx)
  show ?case
  proof (cases "match_here ats tx")
    case True
    show ?thesis
    proof (cases "ats = []")
      case e: True
      show ?thesis
      proof (cases "tx = []")
        case True
        with \<open>match_here ats tx\<close> e show ?thesis unfolding scan_cases [of ats pos tx] by simp
      next
        case False
        have "\<forall>x \<in> set (scan ats (pos + 1) (tl tx)). pos + length ats \<le> fst x \<and> pos < fst x"
        proof
          fix x assume x: "x \<in> set (scan ats (pos + 1) (tl tx))"
          obtain s e where se: "x = (s, e)" by (cases x)
          from scan_sound [of s e ats "pos + 1" "tl tx"] x se e
          show "pos + length ats \<le> fst x \<and> pos < fst x" by simp
        qed
        with "1.IH"(1) [OF \<open>match_here ats tx\<close> e False] \<open>match_here ats tx\<close> e False
        show ?thesis unfolding scan_cases [of ats pos tx] by simp
      qed
    next
      case ne: False
      then have pl: "0 < length ats" by simp
      have "\<forall>x \<in> set (scan ats (pos + length ats) (drop (length ats) tx)).
               pos + length ats \<le> fst x \<and> pos < fst x"
      proof
        fix x assume x: "x \<in> set (scan ats (pos + length ats) (drop (length ats) tx))"
        obtain s e where se: "x = (s, e)" by (cases x)
        from scan_sound [of s e ats "pos + length ats" "drop (length ats) tx"] x se
        have "pos + length ats \<le> s" by blast
        with pl se show "pos + length ats \<le> fst x \<and> pos < fst x"
          by (simp del: length_greater_0_conv)
      qed
      with "1.IH"(2) [OF \<open>match_here ats tx\<close> ne] \<open>match_here ats tx\<close> ne
      show ?thesis unfolding scan_cases [of ats pos tx] by simp
    qed
  next
    case False
    show ?thesis
    proof (cases "tx = []")
      case True
      with False show ?thesis unfolding scan_cases [of ats pos tx] by simp
    next
      case ne: False
      with "1.IH"(3) [OF False ne] False show ?thesis unfolding scan_cases [of ats pos tx] by simp
    qed
  qed
qed


lemma scan_complete:
  "i \<le> length tx \<Longrightarrow> match_here ats (drop i tx) \<Longrightarrow>
     \<exists>x \<in> set (scan ats pos tx). fst x \<le> pos + i \<and> (pos + i < snd x \<or> fst x = pos + i)"
proof (induction ats pos tx arbitrary: i rule: scan.induct)
  case (1 ats pos tx)
  note il = \<open>i \<le> length tx\<close> and mi = \<open>match_here ats (drop i tx)\<close>
  have tl_step: ?case
    if ne: "tx \<noteq> []" and ipos: "0 < i"
      and sub: "set (scan ats (pos + 1) (tl tx)) \<subseteq> set (scan ats pos tx)"
      and ih: "\<And>j. j \<le> length (tl tx) \<Longrightarrow> match_here ats (drop j (tl tx)) \<Longrightarrow>
             \<exists>x \<in> set (scan ats (pos + 1) (tl tx)).
               fst x \<le> pos + 1 + j \<and> (pos + 1 + j < snd x \<or> fst x = pos + 1 + j)"
  proof -
    from ipos obtain j where j: "i = Suc j" by (cases i) simp_all
    with il ne have "j \<le> length (tl tx)" by (cases tx) simp_all
    moreover from mi j have "match_here ats (drop j (tl tx))" by (simp add: drop_Suc)
    ultimately obtain x where "x \<in> set (scan ats (pos + 1) (tl tx))"
      "fst x \<le> pos + 1 + j \<and> (pos + 1 + j < snd x \<or> fst x = pos + 1 + j)"
      using ih by blast
    with sub j show ?thesis by auto
  qed
  show ?case
  proof (cases "match_here ats tx")
    case True
    show ?thesis
    proof (cases "i = 0 \<or> i < length ats")
      case True
      have "(pos, pos + length ats) \<in> set (scan ats pos tx)"
        unfolding scan_cases [of ats pos tx] using \<open>match_here ats tx\<close> by simp
      moreover from True have "pos \<le> pos + i \<and> (pos + i < pos + length ats \<or> pos = pos + i)"
        by auto
      ultimately show ?thesis by force
    next
      case False
      then have ipos: "0 < i" and ige: "length ats \<le> i" by simp_all
      show ?thesis
      proof (cases "ats = []")
        case e: True
        from ipos il have ne: "tx \<noteq> []" by auto
        have sub: "set (scan ats (pos + 1) (tl tx)) \<subseteq> set (scan ats pos tx)"
          unfolding scan_cases [of ats pos tx] using \<open>match_here ats tx\<close> e ne by auto
        from tl_step [OF ne ipos sub "1.IH"(1) [OF \<open>match_here ats tx\<close> e ne]] show ?thesis .
      next
        case ne: False
        have sub: "set (scan ats (pos + length ats) (drop (length ats) tx)) \<subseteq> set (scan ats pos tx)"
          unfolding scan_cases [of ats pos tx] using \<open>match_here ats tx\<close> ne by auto
        from ige il have "i - length ats \<le> length (drop (length ats) tx)" by simp
        moreover from ige have "drop (i - length ats) (drop (length ats) tx) = drop i tx"
          by (simp only: drop_drop) simp
        with mi have "match_here ats (drop (i - length ats) (drop (length ats) tx))" by simp
        ultimately obtain x where x: "x \<in> set (scan ats (pos + length ats) (drop (length ats) tx))"
          "fst x \<le> pos + length ats + (i - length ats)
           \<and> (pos + length ats + (i - length ats) < snd x \<or> fst x = pos + length ats + (i - length ats))"
          using "1.IH"(2) [OF \<open>match_here ats tx\<close> ne] by blast
        from ige have "pos + length ats + (i - length ats) = pos + i" by simp
        with x sub show ?thesis by auto
      qed
    qed
  next
    case False
    with mi have ipos: "0 < i" by (cases i) simp_all
    with il have ne: "tx \<noteq> []" by auto
    have sub: "set (scan ats (pos + 1) (tl tx)) \<subseteq> set (scan ats pos tx)"
      unfolding scan_cases [of ats pos tx] using False ne by auto
    from tl_step [OF ne ipos sub "1.IH"(3) [OF False ne]] show ?thesis .
  qed
qed

lemma match_here_lits:
  "match_here (map Lit p) ys \<longleftrightarrow> length p \<le> length ys \<and> take (length p) ys = p"
proof (induction p arbitrary: ys)
  case Nil
  then show ?case by simp
next
  case (Cons c p)
  then show ?case by (cases ys) auto
qed

lemma re_parse_plain: "plain p \<Longrightarrow> re_parse w p = Inr (map Lit p)"
proof (induction p)
  case Nil
  then show ?case by (simp add: re_parse.simps)
next
  case (Cons c p)
  then have c: "\<not> re_special c" and p: "plain p" by (simp_all add: plain_def)
  from c have "c \<noteq> CHR ''[''" "c \<noteq> CHR ''.''" by (auto simp: re_special_def)
  then have "take 5 (c # p) \<noteq> nonword_class" "hd (c # p) \<noteq> CHR ''.''"
    by (simp_all add: nonword_class_def)
  with c Cons.IH [OF p] show ?case
    by (subst re_parse.simps) simp
qed

lemma re_compile_plain: "plain p \<Longrightarrow> re_compile p = Inr (map Lit p)"
proof -
  assume p: "plain p"
  have "\<not> (p \<noteq> [] \<and> hd p \<in> set ''*+?'')"
  proof (cases p)
    case Nil
    then show ?thesis by simp
  next
    case (Cons c cs)
    with p have "\<not> re_special c" by (simp add: plain_def)
    then have "c \<notin> set ''*+?''" by (auto simp: re_special_def)
    with Cons show ?thesis by simp
  qed
  with p show ?thesis by (simp add: re_compile_def re_parse_plain)
qed

lemma match_here_occurs:
  "i \<le> length tx \<Longrightarrow> match_here (map Lit p) (drop i tx) \<longleftrightarrow> occurs_at p tx i"
  by (auto simp: match_here_lits occurs_at_def)

lemma finditer_plain:
  assumes "plain p"
  shows "\<exists>sps. re_finditer p tx = Inr sps \<and> occurrences p tx sps"
proof -
  let ?ats = "map Lit p"
  let ?sps = "map (\<lambda>(s, e). (int s, int e)) (scan ?ats 0 tx)"
  have eq: "re_finditer p tx = Inr ?sps"
    using assms by (simp add: re_finditer_def re_compile_plain)
  have sound: "list_all (\<lambda>sp. 0 \<le> fst sp \<and> snd sp = fst sp + int (length p)
                  \<and> occurs_at p tx (nat (fst sp))) ?sps"
  proof -
    have "0 \<le> int s \<and> int e = int s + int (length p) \<and> occurs_at p tx (nat (int s))"
      if "(s, e) \<in> set (scan ?ats 0 tx)" for s e
    proof -
      from scan_sound [OF that] have "e = s + length p" "s \<le> length tx"
        "match_here ?ats (drop s tx)" by simp_all
      then show ?thesis by (simp add: match_here_occurs)
    qed
    then show ?thesis by (auto simp: list_all_iff)
  qed
  have sorted: "sorted_wrt (\<lambda>a b. snd a \<le> fst b \<and> fst a < fst b) ?sps"
    using scan_sorted [of ?ats 0 tx]
    by (simp add: sorted_wrt_map case_prod_unfold)
  have complete: "list_all
           (\<lambda>i. occurs_at p tx i \<longrightarrow>
                  list_ex (\<lambda>sp. fst sp \<le> int i \<and> (int i < snd sp \<or> fst sp = int i)) ?sps)
           [0..<Suc (length tx)]"
  proof -
    have "list_ex (\<lambda>sp. fst sp \<le> int i \<and> (int i < snd sp \<or> fst sp = int i)) ?sps"
      if "i \<le> length tx" and "occurs_at p tx i" for i
    proof -
      from that have "match_here ?ats (drop i tx)" by (simp add: match_here_occurs)
      from scan_complete [OF that(1) this, of 0] obtain x where
        "x \<in> set (scan ?ats 0 tx)" "fst x \<le> i \<and> (i < snd x \<or> fst x = i)" by auto
      then show ?thesis
        by (auto simp: list_ex_iff case_prod_unfold intro!: bexI [of _ x])
    qed
    then show ?thesis by (auto simp: list_all_iff)
  qed
  from eq sound sorted complete show ?thesis
    unfolding occurrences_def by blast
qed

lemma plain_joined: "plain t \<Longrightarrow> plain (concat (split t))"
proof -
  assume "plain t"
  moreover have "set (concat (split t)) \<subseteq> set t"
    using split_words [of t] by auto
  ultimately show ?thesis by (auto simp: plain_def list_all_iff)
qed

section \<open>The spans computed by the line-record parser (C6)\<close>

text \<open>
  C6, as stated, fails: the search is \<^verbatim>\<open>re.finditer(target, text)\<close>, so the target is read
  as a regular expression, not as a literal string. The target "c.t" gives the span (0, 3)
  in the text "cat", where the target does not occur; the target "+1" occurs in "a +1" at
  offset 2, and the search raises the library's error instead of returning a span list.
\<close>

theorem dong_offsets_regex_not_literal:
  "dong_offsets re_finditer ''cat'' ''c.t'' = Inr [(0, 3)]
   \<and> list_all (\<lambda>i. \<not> occurs_at (lower ''c.t'') (lower ''cat'') i) [0..<Suc (length ''cat'')]
   \<and> occurs_at (lower ''+1'') (lower ''a +1'') 2
   \<and> dong_offsets re_finditer ''a +1'' ''+1'' = Inl (ReError ''nothing to repeat at position 0'')"
  by code_simp

text \<open>
  C6, amended. For a target that, lower-cased, has no character that is special in a
  regular expression, the spans are those of a literal search in the lower-cased text:
  the occurrences of the lower-cased target from left to right, none overlapping an
  earlier one, followed, when the target has more than one whitespace-separated word, by
  the occurrences of the words joined without whitespace. The result is always a list,
  empty when there is no occurrence. For "the cat sat on the cat mat" and "cat" it is
  (4, 7), (19, 22).
\<close>

theorem dong_offsets_plain:
  "plain (lower target) \<longrightarrow>
     (\<exists>found joined.
        dong_offsets re_finditer text0 target = Inr (found @ joined)
      \<and> occurrences (lower target) (lower text0) found
      \<and> (if 1 < length (split (lower target))
          then occurrences (concat (split (lower target))) (lower text0) joined
          else joined = []))"
proof
  assume p: "plain (lower target)"
  from finditer_plain [OF p, of "lower text0"] obtain found where
    f: "re_finditer (lower target) (lower text0) = Inr found"
       "occurrences (lower target) (lower text0) found"
    by blast
  show "\<exists>found joined.
        dong_offsets re_finditer text0 target = Inr (found @ joined)
      \<and> occurrences (lower target) (lower text0) found
      \<and> (if 1 < length (split (lower target))
          then occurrences (concat (split (lower target))) (lower text0) joined
          else joined = [])"
  proof (cases "1 < length (split (lower target))")
    case True
    from finditer_plain [OF plain_joined [OF p], of "lower text0"] obtain joined where
      j: "re_finditer (concat (split (lower target))) (lower text0) = Inr joined"
         "occurrences (concat (split (lower target))) (lower text0) joined"
      by blast
    from True f(1) j(1) have "dong_offsets re_finditer text0 target = Inr (found @ joined)"
      by (simp add: dong_offsets_def Let_def)
    with True f(2) j(2) show ?thesis
      by (intro exI [of _ found] exI [of _ joined]) simp
  next
    case False
    with f(1) have "dong_offsets re_finditer text0 target = Inr (found @ [])"
      by (simp add: dong_offsets_def Let_def)
    with False f(2) show ?thesis
      by (intro exI [of _ found] exI [of _ "[]"]) simp
  qed
qed

theorem dong_offsets_plain_witness:
  "plain (lower ''Cat'')
   \<and> dong_offsets re_finditer ''The cat sat on the cat mat'' ''Cat'' = Inr [(4, 7), (19, 22)]
   \<and> occurrences (lower ''Cat'') (lower ''The cat sat on the cat mat'') [(4, 7), (19, 22)]"
proof -
  have p: "plain (lower ''Cat'')" by code_simp
  have one: "\<not> 1 < length (split (lower ''Cat''))" by code_simp
  have ev: "dong_offsets re_finditer ''The cat sat on the cat mat'' ''Cat'' = Inr [(4, 7), (19, 22)]"
    by code_simp
  from dong_offsets_plain [of "''Cat''" "''The cat sat on the cat mat''", THEN mp, OF p]
  obtain found joined where
    fj: "dong_offsets re_finditer ''The cat sat on the cat mat'' ''Cat'' = Inr (found @ joined)"
        "occurrences (lower ''Cat'') (lower ''The cat sat on the cat mat'') found"
        "if 1 < length (split (lower ''Cat''))
          then occurrences (concat (split (lower ''Cat''))) (lower ''The cat sat on the cat mat'') joined
          else joined = []"
    by blast
  from fj(3) one have "joined = []" by simp
  with fj(1) ev have "found = [(4, 7), (19, 22)]" by simp
  with fj(2) p ev show ?thesis by simp
qed

section \<open>Spans and targets (C1)\<close>

lemma get_offsets_Inr:
  assumes "get_offsets tweet_id ent tx tgt = Inr sps"
  shows "\<exists>a. sps = [(a, a + int (length tgt))] \<and> shift_matches tx tgt a"
proof (cases "find (\<lambda>s. shift_matches tx tgt (e_offset ent + s)) [0, -1, 1]")
  case None
  with assms show ?thesis
    by (simp add: get_offsets_def Let_def get_offsets_loop_find)
next
  case (Some s)
  have "shift_matches tx tgt (e_offset ent + s)"
    using find_Some_iff [THEN iffD1, OF Some] by blast
  moreover from assms Some have "sps = [(e_offset ent + s, e_offset ent + s + int (length tgt))]"
    by (simp add: get_offsets_def Let_def get_offsets_loop_find)
  ultimately show ?thesis by blast
qed

lemma entities_loop_spans:
  "entities_loop tweet_id dnr tx anno ents acc ids = Inr (ts, ids') \<Longrightarrow>
     list_all spans_match acc \<Longrightarrow> list_all spans_match ts"
proof (induction ents arbitrary: acc ids)
  case Nil
  then show ?case by simp
next
  case (Cons ent rest)
  from Cons.prems(1) obtain sps where sps: "get_offsets tweet_id ent tx (e_entity ent) = Inr sps"
    by (cases "get_offsets tweet_id ent tx (e_entity ent)") (simp_all add: Let_def)
  from Cons.prems(1) sps obtain sentiment where
    se: "lookup (items anno) id (str_int (e_id ent)) = Inr sentiment"
    by (cases "lookup (items anno) id (str_int (e_id ent))") (simp_all add: Let_def)
  let ?t = "\<lparr>t_spans = map int_span sps,
              t_target_id = tweet_id @ ''#'' @ str_int (e_id ent),
              t_target = e_entity ent, t_text = PStr tx,
              t_sentiment = PStr sentiment, t_sentence_id = Some tweet_id\<rparr>"
  from get_offsets_Inr [OF sps] obtain a where
    a: "sps = [(a, a + int (length (e_entity ent)))]" "shift_matches tx (e_entity ent) a"
    by blast
  then have t: "spans_match ?t"
    by (simp add: spans_match_def span_matches_def int_span_def shift_matches_def)
  show ?case
  proof (cases "sentiment = ''doesnotapply'' \<and> \<not> dnr")
    case True
    with Cons.prems(1) sps se have
      "entities_loop tweet_id dnr tx anno rest acc (ids @ [e_id ent]) = Inr (ts, ids')"
      by (simp add: Let_def)
    from Cons.IH [OF this Cons.prems(2)] show ?thesis .
  next
    case False
    with Cons.prems(1) sps se have
      "entities_loop tweet_id dnr tx anno rest (acc @ [?t]) (ids @ [e_id ent]) = Inr (ts, ids')"
      by (simp add: Let_def)
    moreover from t Cons.prems(2) have "list_all spans_match (acc @ [?t])" by simp
    ultimately show ?thesis by (rule Cons.IH)
  qed
qed

lemma additional_loop_prefix:
  "additional_loop fi tweet_id tx b its acc ids = Inr r \<Longrightarrow> take (length acc) r = acc"
proof (induction its arbitrary: acc ids)
  case Nil
  then show ?case by simp
next
  case (Cons x its)
  obtain target sentiment where x: "x = (target, sentiment)" by (cases x)
  from Cons.prems x obtain m where m: "fuzzy_target_match fi tweet_id tx target = Inr m"
    by (cases "fuzzy_target_match fi tweet_id tx target") simp_all
  show ?case
  proof (cases m)
    case None
    with Cons.prems x m have "additional_loop fi tweet_id tx b its acc ids = Inr r" by simp
    from Cons.IH [OF this] show ?thesis .
  next
    case (Some ms)
    with Cons.prems x m obtain mx where mx: "py_max ids = Inr mx"
      by (cases "py_max ids") simp_all
    from Cons.prems x m Some mx obtain first_match rest_matches where
      ms: "ms = first_match # rest_matches" and b: "b"
      by (cases ms; cases b) (simp_all add: Let_def)
    let ?t = "\<lparr>t_spans = [int_span first_match],
                t_target_id = tweet_id @ ''#'' @ str_int (mx + 1),
                t_target = target, t_text = PStr tx,
                t_sentiment = PStr sentiment, t_sentence_id = Some tweet_id\<rparr>"
    from Cons.prems x m Some mx ms b have
      "additional_loop fi tweet_id tx b its (acc @ [?t]) (ids @ [mx + 1]) = Inr r"
      by (simp add: Let_def)
    from Cons.IH [OF this] have "take (length (acc @ [?t])) r = acc @ [?t]" .
    then have "take (length acc) (take (length (acc @ [?t])) r) = take (length acc) (acc @ [?t])"
      by simp
    then show ?thesis by (simp add: min_def)
  qed
qed

lemma dong_offsets_single:
  "\<not> 1 < length (split (lower tgt)) \<Longrightarrow> dong_offsets fi tx tgt = fi (lower tgt) (lower tx)"
  by (simp add: dong_offsets_def Let_def split: sum.splits)

lemma occurrence_slice:
  assumes "occurrences p tx found" and "sp \<in> set found"
  shows "py_slice tx (fst sp) (snd sp) = p"
proof -
  from assms have s: "0 \<le> fst sp" and e: "snd sp = fst sp + int (length p)"
    and o: "occurs_at p tx (nat (fst sp))"
    by (auto simp: occurrences_def list_all_iff)
  from s e have "py_slice tx (fst sp) (snd sp)
                   = take (nat (snd sp - fst sp)) (drop (nat (fst sp)) tx)"
    by (intro py_slice_inside) simp_all
  also from e have "\<dots> = take (length p) (drop (nat (fst sp)) tx)" by simp
  also from o have "\<dots> = p" by (simp add: occurs_at_def)
  finally show ?thesis .
qed

lemma dong_record_spans:
  assumes "dong_record fi k r = Inr t" and "t_text t = PStr tx"
    and "literal_search fi (lower (t_target t)) (lower tx)"
    and "length (split (lower (t_target t))) \<le> 1"
  shows "spans_in_lowered t"
proof -
  obtain a b c where r: "r = (a, b, c)" by (cases r)
  from assms(1) r obtain s offsets where
    o: "dong_offsets fi (strip a) (strip b) = Inr offsets"
    and t: "t = \<lparr>t_spans = map int_span offsets, t_target_id = str_nat k,
                 t_target = strip b, t_text = PStr (strip a),
                 t_sentiment = PInt s, t_sentence_id = None\<rparr>"
    by (auto simp: dong_record_def split: option.splits if_splits sum.splits)
  from t assms(2) have tx: "tx = strip a" by simp
  from t assms(4) have "\<not> 1 < length (split (lower (strip b)))" by simp
  from dong_offsets_single [OF this, of fi "strip a"] o have
    "fi (lower (strip b)) (lower (strip a)) = Inr offsets" by simp
  with assms(3) t tx have occ: "occurrences (lower (strip b)) (lower (strip a)) offsets"
    by (simp add: literal_search_def)
  have "span_in_lowered t (int_span sp)" if "sp \<in> set offsets" for sp
    using occurrence_slice [OF occ that] t by (simp add: span_in_lowered_def int_span_def)
  with t show ?thesis by (simp add: spans_in_lowered_def list_all_iff)
qed

lemma finditer_plain_literal: "plain p \<Longrightarrow> literal_search re_finditer p tx"
  using finditer_plain [of p tx] by (auto simp: literal_search_def)

lemma dong_records_member:
  "dong_records fi k rs = Inr coll \<Longrightarrow> t \<in> set coll \<Longrightarrow>
     \<exists>j r. dong_record fi j r = Inr t"
proof -
  assume a: "dong_records fi k rs = Inr coll" and t: "t \<in> set coll"
  from t obtain i where i: "i < length coll" "coll ! i = t" by (auto simp: in_set_conv_nth)
  with dong_records_length [OF a] have "dong_record fi (k + i) (rs ! i) = Inr t" by simp
  then show ?thesis by blast
qed

text \<open>
  C1, as stated, fails. \<^verbatim>\<open>semeval\<close> copies the \<^verbatim>\<open>from\<close> and \<^verbatim>\<open>to\<close> attributes into the
  span as they are, two strings, and compares nothing with the text: a sentence "good food"
  with the aspect term "service" at 0 to 4 gives a Target whose span covers "good". In
  \<^verbatim>\<open>dong\<close> the spans found for the target joined without whitespace cover the joined
  word, which is not the target.
\<close>

theorem spans_unchecked_or_joined:
  "semeval ''f.xml'' (example_sentences ''positive'')
     = Inr [\<lparr>t_spans = [(PStr ''0'', PStr ''4'')], t_target_id = ''s10'',
             t_target = ''service'', t_text = PStr ''good food'', t_sentiment = PInt 1,
             t_sentence_id = None\<rparr>]
   \<and> \<not> spans_match \<lparr>t_spans = [(PStr ''0'', PStr ''4'')], t_target_id = ''s10'',
             t_target = ''service'', t_text = PStr ''good food'', t_sentiment = PInt 1,
             t_sentence_id = None\<rparr>
   \<and> lower (py_slice ''good food'' 0 4) \<noteq> lower ''service''
   \<and> dong re_finditer [''I love newyork'', ''New York'', ''1'']
     = Inr [\<lparr>t_spans = [(PInt 7, PInt 14)], t_target_id = ''0'', t_target = ''New York'',
             t_text = PStr ''I love newyork'', t_sentiment = PInt 1, t_sentence_id = None\<rparr>]
   \<and> \<not> spans_match \<lparr>t_spans = [(PInt 7, PInt 14)], t_target_id = ''0'',
             t_target = ''New York'', t_text = PStr ''I love newyork'', t_sentiment = PInt 1,
             t_sentence_id = None\<rparr>"
  by code_simp

text \<open>
  C1, amended. The Targets that the election parser builds for the automatically detected
  entities (the result of the entities loop: the whole result without
  \<^verbatim>\<open>include_additional\<close>, and its first part with it) have, for every span, the slice of
  the text at the span, lower-cased, equal to the lower-cased target. \<^verbatim>\<open>dong\<close> searches
  the lower-cased text and stores the text as read, so its spans are offsets into the
  lower-cased text: for every Target of \<^verbatim>\<open>dong\<close>, from any file, whose lower-cased target
  is a single word and is searched as a literal string, the slice of the lower-cased text
  at every span equals the lower-cased target. The search of the regular expression
  library is the literal search for every pattern with no character that is special in a
  regular expression. The offsets are offsets into the stored text as well only where
  lower-casing keeps every character of the text in its place.
\<close>

theorem spans_match_target:
  "(parse_tweet fi include_dnr include_additional tweet anno tweet_id = Inr ts \<longrightarrow>
      (\<exists>es ids.
          entities_loop tweet_id include_dnr (content tweet) anno (entities tweet) [] []
            = Inr (es, ids)
        \<and> list_all spans_match es \<and> take (length es) ts = es
        \<and> (\<not> include_additional \<longrightarrow> ts = es)))
   \<and> (dong fi file_lines = Inr coll \<and> t \<in> set coll \<and> t_text t = PStr tx
        \<and> literal_search fi (lower (t_target t)) (lower tx)
        \<and> length (split (lower (t_target t))) \<le> 1
      \<longrightarrow> spans_in_lowered t)
   \<and> (plain p \<longrightarrow> literal_search re_finditer p ltx)"
proof (intro conjI impI)
  assume p: "parse_tweet fi include_dnr include_additional tweet anno tweet_id = Inr ts"
  then obtain es ids where
    el: "entities_loop tweet_id include_dnr (content tweet) anno (entities tweet) [] []
           = Inr (es, ids)"
    by (cases "entities_loop tweet_id include_dnr (content tweet) anno (entities tweet) [] []")
       (auto simp: parse_tweet_def Let_def)
  from entities_loop_spans [OF el] have sm: "list_all spans_match es" by simp
  have pre: "take (length es) ts = es \<and> (\<not> include_additional \<longrightarrow> ts = es)"
  proof (cases include_additional)
    case False
    with p el show ?thesis by (simp add: parse_tweet_def Let_def)
  next
    case True
    show ?thesis
    proof (cases "additional_items anno")
      case AdditionalOther
      with p el True show ?thesis by (simp add: parse_tweet_def Let_def)
    next
      case (AdditionalDict d)
      with p el True have
        "additional_loop fi tweet_id (content tweet) (entities tweet \<noteq> []) d es ids = Inr ts"
        by (simp add: parse_tweet_def Let_def)
      from additional_loop_prefix [OF this] True show ?thesis by simp
    qed
  qed
  from el sm pre
  show "\<exists>es ids.
          entities_loop tweet_id include_dnr (content tweet) anno (entities tweet) [] []
            = Inr (es, ids)
        \<and> list_all spans_match es \<and> take (length es) ts = es
        \<and> (\<not> include_additional \<longrightarrow> ts = es)"
    by blast
next
  assume d: "dong fi file_lines = Inr coll \<and> t \<in> set coll \<and> t_text t = PStr tx
        \<and> literal_search fi (lower (t_target t)) (lower tx)
        \<and> length (split (lower (t_target t))) \<le> 1"
  then have "dong_records fi 0 (chunk3 file_lines) = Inr coll"
    by (simp only: dong_records_eq)
  from dong_records_member [OF this] d obtain j r where "dong_record fi j r = Inr t"
    by blast
  from dong_record_spans [OF this] d show "spans_in_lowered t" by blast
next
  assume "plain p"
  then show "literal_search re_finditer p ltx" by (rule finditer_plain_literal)
qed

theorem spans_match_target_witness:
  "parse_tweet re_finditer False False example_entity_tweet example_entity_anno ''12''
     = Inr [\<lparr>t_spans = [(PInt 7, PInt 14)], t_target_id = ''12#4'', t_target = ''kippers'',
             t_text = PStr ''I like Kippers'', t_sentiment = PStr ''negative'',
             t_sentence_id = Some ''12''\<rparr>]
   \<and> list_all spans_match
       [\<lparr>t_spans = [(PInt 7, PInt 14)], t_target_id = ''12#4'', t_target = ''kippers'',
             t_text = PStr ''I like Kippers'', t_sentiment = PStr ''negative'',
             t_sentence_id = Some ''12''\<rparr>]
   \<and> dong re_finditer
       [''The Cat sat on the cat mat'', ''Cat'', ''1'', ''some c.t here'', ''c.t'', ''0'']
     = Inr [\<lparr>t_spans = [(PInt 4, PInt 7), (PInt 19, PInt 22)], t_target_id = ''0'',
             t_target = ''Cat'', t_text = PStr ''The Cat sat on the cat mat'',
             t_sentiment = PInt 1, t_sentence_id = None\<rparr>,
            \<lparr>t_spans = [(PInt 5, PInt 8)], t_target_id = ''1'',
             t_target = ''c.t'', t_text = PStr ''some c.t here'',
             t_sentiment = PInt 0, t_sentence_id = None\<rparr>]
   \<and> plain (lower ''Cat'')
   \<and> literal_search re_finditer (lower ''Cat'') (lower ''The Cat sat on the cat mat'')
   \<and> length (split (lower ''Cat'')) \<le> 1
   \<and> spans_in_lowered \<lparr>t_spans = [(PInt 4, PInt 7), (PInt 19, PInt 22)], t_target_id = ''0'',
             t_target = ''Cat'', t_text = PStr ''The Cat sat on the cat mat'',
             t_sentiment = PInt 1, t_sentence_id = None\<rparr>"
proof -
  let ?e = "\<lparr>t_spans = [(PInt 7, PInt 14)], t_target_id = ''12#4'', t_target = ''kippers'',
             t_text = PStr ''I like Kippers'', t_sentiment = PStr ''negative'',
             t_sentence_id = Some ''12''\<rparr>"
  let ?d = "\<lparr>t_spans = [(PInt 4, PInt 7), (PInt 19, PInt 22)], t_target_id = ''0'',
             t_target = ''Cat'', t_text = PStr ''The Cat sat on the cat mat'',
             t_sentiment = PInt 1, t_sentence_id = None\<rparr>"
  let ?d' = "\<lparr>t_spans = [(PInt 5, PInt 8)], t_target_id = ''1'',
             t_target = ''c.t'', t_text = PStr ''some c.t here'',
             t_sentiment = PInt 0, t_sentence_id = None\<rparr>"
  let ?f = "[''The Cat sat on the cat mat'', ''Cat'', ''1'', ''some c.t here'', ''c.t'', ''0'']"
  note inst = spans_match_target
    [of re_finditer False False example_entity_tweet example_entity_anno "''12''" "[?e]"
        ?f "[?d, ?d']" ?d "''The Cat sat on the cat mat''" "lower ''Cat''"
        "lower ''The Cat sat on the cat mat''"]
  have p: "parse_tweet re_finditer False False example_entity_tweet example_entity_anno ''12''
             = Inr [?e]"
    by code_simp
  have d: "dong re_finditer ?f = Inr [?d, ?d']" by code_simp
  have h: "plain (lower ''Cat'')" "length (split (lower ''Cat'')) \<le> 1" by code_simp+
  from inst [THEN conjunct1, THEN mp, OF p] obtain es ids where
    "list_all spans_match es" "\<not> False \<longrightarrow> [?e] = es"
    by blast
  then have a: "list_all spans_match [?e]" by simp
  from inst [THEN conjunct2, THEN conjunct2, THEN mp, OF h(1)] have
    l: "literal_search re_finditer (lower ''Cat'') (lower ''The Cat sat on the cat mat'')" .
  from d h(2) l have "dong re_finditer ?f = Inr [?d, ?d'] \<and> ?d \<in> set [?d, ?d']
        \<and> t_text ?d = PStr ''The Cat sat on the cat mat''
        \<and> literal_search re_finditer (lower (t_target ?d)) (lower ''The Cat sat on the cat mat'')
        \<and> length (split (lower (t_target ?d))) \<le> 1"
    by simp
  from inst [THEN conjunct2, THEN conjunct1, THEN mp, OF this] have b: "spans_in_lowered ?d" .
  from p a d h(1) l h(2) b show ?thesis by (intro conjI)
qed
end
